theory Spec2Isabelle
  imports Complex_Main "HOL-Library.Word"
begin

section \<open>Values\<close>

text \<open>
  \<^verbatim>\<open>using Value = std::variant<int64_t, double, bool, std::string>;\<close>

  The program never computes with a \<^verbatim>\<open>double\<close>: it converts to one (from an
  \<^verbatim>\<open>int64_t\<close>, from the text of a number token) and compares two of them. A
  \<^verbatim>\<open>double\<close> is therefore modelled by the number it denotes: a rational for a finite
  value (the two zeros denote the same number and no comparison tells them apart), the two
  infinities, and NaN.
\<close>

datatype double = DNaN | DNegInf | DFin rat | DPosInf

text \<open>The comparison operators of IEEE 754: every comparison with a NaN is false,
  except \<^verbatim>\<open>!=\<close>, which is true.\<close>

definition d_eq :: "double \<Rightarrow> double \<Rightarrow> bool" where
  "d_eq a b = (a \<noteq> DNaN \<and> b \<noteq> DNaN \<and> a = b)"

definition d_ne :: "double \<Rightarrow> double \<Rightarrow> bool" where
  "d_ne a b = (\<not> d_eq a b)"

fun d_lt :: "double \<Rightarrow> double \<Rightarrow> bool" where
  "d_lt DNaN b = False"
| "d_lt a DNaN = False"
| "d_lt DNegInf DNegInf = False"
| "d_lt DNegInf b = True"
| "d_lt (DFin x) DNegInf = False"
| "d_lt (DFin x) (DFin y) = (x < y)"
| "d_lt (DFin x) DPosInf = True"
| "d_lt DPosInf b = False"

definition d_le :: "double \<Rightarrow> double \<Rightarrow> bool" where
  "d_le a b = (d_lt a b \<or> d_eq a b)"

definition d_gt :: "double \<Rightarrow> double \<Rightarrow> bool" where
  "d_gt a b = d_lt b a"

definition d_ge :: "double \<Rightarrow> double \<Rightarrow> bool" where
  "d_ge a b = d_le b a"

text \<open>Rounding to the nearest binary64 number, ties to even: the conversion of
  \<^verbatim>\<open>static_cast<double>\<close> and of \<^verbatim>\<open>std::stod\<close>.\<close>

fun bit_length :: "nat \<Rightarrow> nat" where
  "bit_length n = (if n = 0 then 0 else Suc (bit_length (n div 2)))"

declare bit_length.simps [simp del]

definition pow2 :: "int \<Rightarrow> rat" where
  "pow2 e = (if 0 \<le> e then 2 ^ nat e else 1 / 2 ^ nat (- e))"

definition ilog2 :: "rat \<Rightarrow> int" where
  \<comment> \<open>for \<open>0 < q\<close>: the \<open>k\<close> with \<open>2^k \<le> q < 2^(k+1)\<close>\<close>
  "ilog2 q = (if 1 \<le> q then int (bit_length (nat \<lfloor>q\<rfloor>)) - 1
              else - int (bit_length (nat (\<lceil>1 / q\<rceil> - 1))))"

definition round_half_even :: "rat \<Rightarrow> int" where
  "round_half_even q =
     (let f = \<lfloor>q\<rfloor>; r = q - of_int f
      in if r < 1 / 2 then f else if 1 / 2 < r then f + 1 else if even f then f else f + 1)"

definition round_binary64 :: "rat \<Rightarrow> rat" where
  "round_binary64 q =
     (if q = 0 then 0
      else let a = \<bar>q\<bar>; e = max (ilog2 a - 52) (- 1074); m = round_half_even (a / pow2 e)
           in sgn q * of_int m * pow2 e)"

definition d_of_int64 :: "64 word \<Rightarrow> double" where
  "d_of_int64 w = DFin (round_binary64 (of_int (sint w)))"

datatype Value = VInt "64 word" | VDouble double | VBool bool | VString string

fun index :: "Value \<Rightarrow> nat" where
  "index (VInt _) = 0"
| "index (VDouble _) = 1"
| "index (VBool _) = 2"
| "index (VString _) = 3"

section \<open>Errors\<close>

text \<open>Every \<^verbatim>\<open>throw\<close> of the program is a constructor; \<open>UndefinedBehaviour\<close> stands for a
  vector read outside its bounds, \<open>OutOfFuel\<close> belongs to the recursion bound of the parser
  model and is never raised by \<open>compileExpression\<close>.\<close>

datatype error =
    UnterminatedString
  | UnexpectedChar char
  | ExpectedRParen
  | UnexpectedTokenInPrimary
  | StodInvalidArgument
  | StodOutOfRange
  | UnknownComparisonOp
  | NonNumeric
  | ExpectedLeaf
  | UnknownProperty string
  | UnknownVar string
  | NoCurrentState
  | NoCurrentPhase
  | PhaseEdgeToUnknownPhase string
  | DuplicateNodeId string
  | EdgeReferencesUnknownNode
  | UnsupportedValueType
  | UnsupportedActionValueType
  | MissingPhasesArray
  | DuplicatePhaseId string
  | PhaseEdgeReferencesUnknownPhase
  | JsonParseError
  | JsonTypeError
  | JsonOutOfRange
  | JsonInvalidIterator
  | UndefinedBehaviour
  | OutOfFuel

section \<open>Nodes\<close>

record DefaultNode =
  node_id :: string
  params :: "string \<rightharpoonup> Value"
  vars :: "string \<rightharpoonup> Value"
  properties :: "string \<rightharpoonup> Value"

definition getVar :: "DefaultNode \<Rightarrow> string \<Rightarrow> Value option" where
  "getVar n k = vars n k"

definition getProperty :: "DefaultNode \<Rightarrow> string \<Rightarrow> Value option" where
  "getProperty n k = properties n k"

definition setVar :: "DefaultNode \<Rightarrow> string \<Rightarrow> Value \<Rightarrow> DefaultNode" where
  "setVar n k v = n\<lparr>vars := (vars n)(k \<mapsto> v)\<rparr>"

section \<open>Expression trees and their evaluation\<close>

datatype ASTValue = IDENT string | NUMBER double | STRING string | BOOLEAN bool

datatype ExprNode =
    LEAF ASTValue
  | NOT ExprNode
  | AND ExprNode ExprNode
  | OR ExprNode ExprNode
  | CMP string ExprNode ExprNode

definition toNumberPromote :: "Value \<Rightarrow> error + double" where
  "toNumberPromote v =
     (case v of VInt i \<Rightarrow> Inr (d_of_int64 i) | VDouble d \<Rightarrow> Inr d | _ \<Rightarrow> Inl NonNumeric)"

definition is_numeric :: "Value \<Rightarrow> bool" where
  \<comment> \<open>\<^verbatim>\<open>holds_alternative<int64_t>(v) || holds_alternative<double>(v)\<close>\<close>
  "is_numeric v = (case v of VInt _ \<Rightarrow> True | VDouble _ \<Rightarrow> True | _ \<Rightarrow> False)"

fun variant_eq :: "Value \<Rightarrow> Value \<Rightarrow> bool" where
  \<comment> \<open>\<^verbatim>\<open>a==b\<close> of \<^verbatim>\<open>std::variant\<close>: the same alternative, and \<^verbatim>\<open>==\<close> of the two payloads\<close>
  "variant_eq (VInt i) (VInt j) = (i = j)"
| "variant_eq (VDouble x) (VDouble y) = d_eq x y"
| "variant_eq (VBool p) (VBool q) = (p = q)"
| "variant_eq (VString s) (VString t) = (s = t)"
| "variant_eq _ _ = False"

definition valueEquals :: "Value \<Rightarrow> Value \<Rightarrow> error + bool" where
  "valueEquals a b =
     (if index a \<noteq> index b then
        (if is_numeric a \<and> is_numeric b then
           (case toNumberPromote a of
              Inl e \<Rightarrow> Inl e
            | Inr x \<Rightarrow> (case toNumberPromote b of Inl e \<Rightarrow> Inl e | Inr y \<Rightarrow> Inr (d_eq x y)))
         else Inr False)
      else Inr (variant_eq a b))"

definition is_property_name :: "string \<Rightarrow> bool" where
  \<comment> \<open>\<^verbatim>\<open>text.substr(0, 11) == "properties."\<close>\<close>
  "is_property_name t = (take 11 t = ''properties.'')"

definition extractLeaf :: "ExprNode \<Rightarrow> DefaultNode \<Rightarrow> error + Value" where
  "extractLeaf n node =
     (case n of
        LEAF (BOOLEAN b) \<Rightarrow> Inr (VBool b)
      | LEAF (NUMBER x) \<Rightarrow> Inr (VDouble x)
      | LEAF (STRING s) \<Rightarrow> Inr (VString s)
      | LEAF (IDENT t) \<Rightarrow>
          (case (if is_property_name t then getProperty node (drop 11 t) else getVar node t) of
             None \<Rightarrow>
               (if is_property_name t then Inl (UnknownProperty (drop 11 t))
                else Inl (UnknownVar t))
           | Some v \<Rightarrow> Inr v)
      | _ \<Rightarrow> Inl ExpectedLeaf)"

definition truthy :: "Value \<Rightarrow> bool" where
  \<comment> \<open>the chain of \<^verbatim>\<open>holds_alternative\<close> tests of the identifier leaf\<close>
  "truthy v =
     (case v of
        VBool b \<Rightarrow> b
      | VInt i \<Rightarrow> i \<noteq> 0
      | VDouble d \<Rightarrow> d_ne d (DFin 0)
      | VString s \<Rightarrow> s \<noteq> [])"

definition compare :: "string \<Rightarrow> Value \<Rightarrow> Value \<Rightarrow> error + bool" where
  \<comment> \<open>the body of \<^verbatim>\<open>case CMP\<close> once both operands are extracted\<close>
  "compare cmpOp lv rv =
     (if cmpOp = ''=='' \<or> cmpOp = ''!='' then
        (case valueEquals lv rv of
           Inl e \<Rightarrow> Inl e
         | Inr eq \<Rightarrow> Inr (if cmpOp = ''=='' then eq else \<not> eq))
      else
        (case toNumberPromote lv of
           Inl e \<Rightarrow> Inl e
         | Inr lnum \<Rightarrow>
             (case toNumberPromote rv of
                Inl e \<Rightarrow> Inl e
              | Inr rnum \<Rightarrow>
                  if cmpOp = ''<'' then Inr (d_lt lnum rnum)
                  else if cmpOp = ''<='' then Inr (d_le lnum rnum)
                  else if cmpOp = ''>'' then Inr (d_gt lnum rnum)
                  else if cmpOp = ''>='' then Inr (d_ge lnum rnum)
                  else Inl UnknownComparisonOp)))"

fun eval :: "ExprNode \<Rightarrow> DefaultNode \<Rightarrow> error + bool"
  and extractValue :: "ExprNode \<Rightarrow> DefaultNode \<Rightarrow> error + Value" where
  "eval (LEAF (BOOLEAN b)) node = Inr b"
| "eval (LEAF (NUMBER x)) node = Inr (d_ne x (DFin 0))"
| "eval (LEAF (STRING s)) node = Inr (s \<noteq> [])"
| "eval (LEAF (IDENT t)) node =
     (case (if is_property_name t then getProperty node (drop 11 t) else getVar node t) of
        None \<Rightarrow> Inr False
      | Some v \<Rightarrow> Inr (truthy v))"
| "eval (NOT l) node = (case eval l node of Inl e \<Rightarrow> Inl e | Inr b \<Rightarrow> Inr (\<not> b))"
| "eval (AND l r) node =
     (case eval l node of Inl e \<Rightarrow> Inl e | Inr b \<Rightarrow> if b then eval r node else Inr False)"
| "eval (OR l r) node =
     (case eval l node of Inl e \<Rightarrow> Inl e | Inr b \<Rightarrow> if b then Inr True else eval r node)"
| "eval (CMP cmpOp l r) node =
     (case extractValue l node of
        Inl e \<Rightarrow> Inl e
      | Inr lv \<Rightarrow>
          (case extractValue r node of Inl e \<Rightarrow> Inl e | Inr rv \<Rightarrow> compare cmpOp lv rv))"
| "extractValue (LEAF a) node = extractLeaf (LEAF a) node"
| "extractValue (NOT l) node =
     (case eval (NOT l) node of Inl e \<Rightarrow> Inl e | Inr b \<Rightarrow> Inr (VBool b))"
| "extractValue (AND l r) node =
     (case eval (AND l r) node of Inl e \<Rightarrow> Inl e | Inr b \<Rightarrow> Inr (VBool b))"
| "extractValue (OR l r) node =
     (case eval (OR l r) node of Inl e \<Rightarrow> Inl e | Inr b \<Rightarrow> Inr (VBool b))"
| "extractValue (CMP c l r) node =
     (case eval (CMP c l r) node of Inl e \<Rightarrow> Inl e | Inr b \<Rightarrow> Inr (VBool b))"

section \<open>Edges and phase edges\<close>

record DefaultEdge =
  e_from :: string
  e_to :: string
  condition_expr :: string
  compiled :: "ExprNode option"
  actions :: "string \<rightharpoonup> Value"

definition evaluate :: "DefaultEdge \<Rightarrow> DefaultNode \<Rightarrow> error + bool" where
  \<comment> \<open>\<^verbatim>\<open>return compiled ? compiled->eval(current) : true;\<close>\<close>
  "evaluate e current = (case compiled e of Some c \<Rightarrow> eval c current | None \<Rightarrow> Inr True)"

record DefaultPhaseEdge =
  pe_from :: string
  pe_to :: string
  pe_condition_expr :: string
  pe_compiled :: "ExprNode option"

definition pe_evaluate :: "DefaultPhaseEdge \<Rightarrow> DefaultNode \<Rightarrow> error + bool" where
  \<comment> \<open>\<^verbatim>\<open>return compiled ? compiled->eval(currentNode) : false;\<close>\<close>
  "pe_evaluate e currentNode =
     (case pe_compiled e of Some c \<Rightarrow> eval c currentNode | None \<Rightarrow> Inr False)"

section \<open>The single-phase state graph\<close>

record StateGraph =
  nodes :: "DefaultNode list"
  edges :: "DefaultEdge list"
  node_index :: "string \<rightharpoonup> nat"
  adjacency :: "nat list list"
  current_index :: "nat option"

definition sg_empty :: StateGraph where
  "sg_empty = \<lparr>nodes = [], edges = [], node_index = Map.empty, adjacency = [],
               current_index = None\<rparr>"

definition sg_clear :: "StateGraph \<Rightarrow> StateGraph" where
  "sg_clear g = g\<lparr>nodes := [], edges := [], node_index := Map.empty, adjacency := [],
                  current_index := None\<rparr>"

definition addNode :: "StateGraph \<Rightarrow> DefaultNode \<Rightarrow> error + StateGraph" where
  "addNode g n =
     (if node_index g (node_id n) \<noteq> None then Inl (DuplicateNodeId (node_id n))
      else Inr (g\<lparr>node_index := (node_index g)(node_id n \<mapsto> length (nodes g)),
                  nodes := nodes g @ [n],
                  adjacency := adjacency g @ [[]]\<rparr>))"

definition addEdge :: "StateGraph \<Rightarrow> DefaultEdge \<Rightarrow> error + StateGraph" where
  "addEdge g e =
     (case (node_index g (e_from e), node_index g (e_to e)) of
        (Some fi, Some ti) \<Rightarrow>
          (if fi < length (adjacency g) then
             Inr (g\<lparr>edges := edges g @ [e],
                    adjacency := (adjacency g)[fi := adjacency g ! fi @ [length (edges g)]]\<rparr>)
           else Inl UndefinedBehaviour)
      | _ \<Rightarrow> Inl EdgeReferencesUnknownNode)"

definition setInitialState :: "StateGraph \<Rightarrow> string \<Rightarrow> bool \<times> StateGraph" where
  "setInitialState g ident =
     (case node_index g ident of
        None \<Rightarrow> (False, g)
      | Some i \<Rightarrow> (True, g\<lparr>current_index := Some i\<rparr>))"

definition hasCurrentState :: "StateGraph \<Rightarrow> bool" where
  "hasCurrentState g = (current_index g \<noteq> None)"

definition currentNode :: "StateGraph \<Rightarrow> error + DefaultNode" where
  "currentNode g =
     (case current_index g of
        None \<Rightarrow> Inl NoCurrentState
      | Some i \<Rightarrow> if i < length (nodes g) then Inr (nodes g ! i) else Inl UndefinedBehaviour)"

definition currentStateId :: "StateGraph \<Rightarrow> error + string" where
  "currentStateId g =
     (case current_index g of
        None \<Rightarrow> Inl NoCurrentState
      | Some i \<Rightarrow>
          if i < length (nodes g) then Inr (node_id (nodes g ! i)) else Inl UndefinedBehaviour)"

definition index_or_insert :: "(string \<rightharpoonup> nat) \<Rightarrow> string \<Rightarrow> nat \<times> (string \<rightharpoonup> nat)" where
  \<comment> \<open>\<^verbatim>\<open>operator[]\<close> of \<^verbatim>\<open>std::unordered_map\<close>: a missing key is inserted with the value 0\<close>
  "index_or_insert m k = (case m k of Some i \<Rightarrow> (i, m) | None \<Rightarrow> (0, m(k \<mapsto> 0)))"

definition apply_actions :: "DefaultNode \<Rightarrow> (string \<rightharpoonup> Value) \<Rightarrow> DefaultNode" where
  \<comment> \<open>\<^verbatim>\<open>for (auto& [k,v]: e.actions) dest.setVar(k,v);\<close> The keys of an
      \<^verbatim>\<open>unordered_map\<close> are distinct, so the order of the loop does not show: every
      entry of the map is stored.\<close>
  "apply_actions dest acts = dest\<lparr>vars := vars dest ++ acts\<rparr>"

definition take_edge :: "StateGraph \<Rightarrow> DefaultEdge \<Rightarrow> (error + string option) \<times> StateGraph" where
  \<comment> \<open>the body of \<^verbatim>\<open>if (e.evaluate(cur)) { ... }\<close>\<close>
  "take_edge g e =
     (let (d, ni) = index_or_insert (node_index g) (e_to e);
          g1 = g\<lparr>node_index := ni, current_index := Some d\<rparr>
      in if d < length (nodes g1) then
           (let dest = apply_actions (nodes g1 ! d) (actions e)
            in (Inr (Some (node_id dest)), g1\<lparr>nodes := (nodes g1)[d := dest]\<rparr>))
         else (Inl UndefinedBehaviour, g1))"

fun step_edges ::
  "StateGraph \<Rightarrow> DefaultNode \<Rightarrow> nat list \<Rightarrow> (error + string option) \<times> StateGraph" where
  "step_edges g cur [] = (Inr None, g)"
| "step_edges g cur (edgeIdx # rest) =
     (if edgeIdx < length (edges g) then
        (case evaluate (edges g ! edgeIdx) cur of
           Inl err \<Rightarrow> (Inl err, g)
         | Inr fires \<Rightarrow> if fires then take_edge g (edges g ! edgeIdx) else step_edges g cur rest)
      else (Inl UndefinedBehaviour, g))"

definition sg_step :: "StateGraph \<Rightarrow> (error + string option) \<times> StateGraph" where
  "sg_step g =
     (case current_index g of
        None \<Rightarrow> (Inr None, g)
      | Some fromIdx \<Rightarrow>
          if fromIdx < length (nodes g) \<and> fromIdx < length (adjacency g) then
            step_edges g (nodes g ! fromIdx) (adjacency g ! fromIdx)
          else (Inl UndefinedBehaviour, g))"

section \<open>The multi-phase state graph\<close>

record Phase =
  phase_id :: string
  graph :: StateGraph
  initial_state :: string

record MultiPhaseStateGraph =
  phases :: "Phase list"
  phase_index :: "string \<rightharpoonup> nat"
  phase_edges :: "DefaultPhaseEdge list"
  phase_adj :: "nat list list"
  current_phase :: "nat option"

record StepResult =
  phase_changed :: bool
  state_changed :: bool
  res_phase_id :: string
  res_state_id :: string

definition mp_empty :: MultiPhaseStateGraph where
  "mp_empty = \<lparr>phases = [], phase_index = Map.empty, phase_edges = [], phase_adj = [],
               current_phase = None\<rparr>"

definition mp_clear :: "MultiPhaseStateGraph \<Rightarrow> MultiPhaseStateGraph" where
  "mp_clear g = g\<lparr>phases := [], phase_index := Map.empty, phase_edges := [], phase_adj := [],
                  current_phase := None\<rparr>"

definition mp_currentPhaseId :: "MultiPhaseStateGraph \<Rightarrow> error + string" where
  "mp_currentPhaseId g =
     (case current_phase g of
        None \<Rightarrow> Inl NoCurrentPhase
      | Some cp \<Rightarrow>
          if cp < length (phases g) then Inr (phase_id (phases g ! cp))
          else Inl UndefinedBehaviour)"

definition mp_currentStateId :: "MultiPhaseStateGraph \<Rightarrow> error + string" where
  "mp_currentStateId g =
     (case current_phase g of
        None \<Rightarrow> Inl NoCurrentPhase
      | Some cp \<Rightarrow>
          if cp < length (phases g) then currentStateId (graph (phases g ! cp))
          else Inl UndefinedBehaviour)"


definition set_phase_graph ::
  "MultiPhaseStateGraph \<Rightarrow> nat \<Rightarrow> StateGraph \<Rightarrow> MultiPhaseStateGraph" where
  \<comment> \<open>a write through the reference \<^verbatim>\<open>phases_[i].graph\<close>\<close>
  "set_phase_graph g i gr = g\<lparr>phases := (phases g)[i := (phases g ! i)\<lparr>graph := gr\<rparr>]\<rparr>"

definition setInitialPhase :: "MultiPhaseStateGraph \<Rightarrow> string \<Rightarrow> (error + bool) \<times> MultiPhaseStateGraph" where
  "setInitialPhase g phaseId =
     (case phase_index g phaseId of
        None \<Rightarrow> (Inr False, g)
      | Some i \<Rightarrow>
          (let g1 = g\<lparr>current_phase := Some i\<rparr>
           in if i < length (phases g1) then
                (let p = phases g1 ! i
                 in if initial_state p \<noteq> [] then
                      (Inr True, set_phase_graph g1 i (snd (setInitialState (graph p) (initial_state p))))
                    else (Inr True, g1))
              else (Inl UndefinedBehaviour, g1)))"

definition enter_phase ::
  "MultiPhaseStateGraph \<Rightarrow> DefaultPhaseEdge \<Rightarrow> (error + bool) \<times> MultiPhaseStateGraph" where
  \<comment> \<open>the body of \<^verbatim>\<open>if (pe.evaluate(curNode)) { ... break; }\<close>\<close>
  "enter_phase g pe =
     (case phase_index g (pe_to pe) of
        None \<Rightarrow> (Inl (PhaseEdgeToUnknownPhase (pe_to pe)), g)
      | Some t \<Rightarrow>
          (let g1 = g\<lparr>current_phase := Some t\<rparr>
           in if t < length (phases g1) then
                (let newPhase = phases g1 ! t
                 in if \<not> hasCurrentState (graph newPhase) \<and> initial_state newPhase \<noteq> [] then
                      (Inr True,
                       set_phase_graph g1 t
                         (snd (setInitialState (graph newPhase) (initial_state newPhase))))
                    else (Inr True, g1))
              else (Inl UndefinedBehaviour, g1)))"

fun phase_loop ::
  "MultiPhaseStateGraph \<Rightarrow> DefaultNode \<Rightarrow> nat list \<Rightarrow> (error + bool) \<times> MultiPhaseStateGraph"
  where
  "phase_loop g curNode [] = (Inr False, g)"
| "phase_loop g curNode (peIdx # rest) =
     (if peIdx < length (phase_edges g) then
        (case pe_evaluate (phase_edges g ! peIdx) curNode of
           Inl err \<Rightarrow> (Inl err, g)
         | Inr fires \<Rightarrow>
             if fires then enter_phase g (phase_edges g ! peIdx)
             else phase_loop g curNode rest)
      else (Inl UndefinedBehaviour, g))"

definition step_result :: "bool \<Rightarrow> bool \<Rightarrow> MultiPhaseStateGraph \<Rightarrow>
    (error + StepResult option) \<times> MultiPhaseStateGraph" where
  \<comment> \<open>\<^verbatim>\<open>r.phase_id = currentPhaseId(); r.state_id = currentStateId(); return r;\<close>\<close>
  "step_result pc sc g =
     (case mp_currentPhaseId g of
        Inl err \<Rightarrow> (Inl err, g)
      | Inr pid \<Rightarrow>
          (case mp_currentStateId g of
             Inl err \<Rightarrow> (Inl err, g)
           | Inr sid \<Rightarrow>
               (Inr (Some \<lparr>phase_changed = pc, state_changed = sc,
                           res_phase_id = pid, res_state_id = sid\<rparr>), g)))"

definition mp_step :: "MultiPhaseStateGraph \<Rightarrow> (error + StepResult option) \<times> MultiPhaseStateGraph"
  where
  "mp_step g =
     (case current_phase g of
        None \<Rightarrow> (Inr None, g)
      | Some cp \<Rightarrow>
          if cp < length (phases g) then
            (case currentStateId (graph (phases g ! cp)) of
               Inl err \<Rightarrow> (Inl err, g)
             | Inr prevState \<Rightarrow>
                 (case sg_step (graph (phases g ! cp)) of
                    (Inl err, gr) \<Rightarrow> (Inl err, set_phase_graph g cp gr)
                  | (Inr ns, gr) \<Rightarrow>
                      (let g1 = set_phase_graph g cp gr
                       in case currentNode gr of
                            Inl err \<Rightarrow> (Inl err, g1)
                          | Inr curNode \<Rightarrow>
                              if cp < length (phase_adj g1) then
                                (case phase_loop g1 curNode (phase_adj g1 ! cp) of
                                   (Inl err, g2) \<Rightarrow> (Inl err, g2)
                                 | (Inr pc, g2) \<Rightarrow> step_result pc (ns \<noteq> None) g2)
                              else (Inl UndefinedBehaviour, g1))))
          else (Inl UndefinedBehaviour, g))"

definition mp_next :: "MultiPhaseStateGraph \<Rightarrow> MultiPhaseStateGraph" where
  \<comment> \<open>the graph after one call of \<^verbatim>\<open>step\<close>, whatever the call returned or threw\<close>
  "mp_next g = snd (mp_step g)"

section \<open>The lexer\<close>

text \<open>The character classes of \<^verbatim>\<open><cctype>\<close> in the C locale, on the byte as an
  \<^verbatim>\<open>unsigned char\<close>.\<close>

definition isspace :: "char \<Rightarrow> bool" where
  "isspace c = (let n = (of_char c :: nat) in n = 32 \<or> (9 \<le> n \<and> n \<le> 13))"

definition isalpha :: "char \<Rightarrow> bool" where
  "isalpha c = (let n = (of_char c :: nat) in (65 \<le> n \<and> n \<le> 90) \<or> (97 \<le> n \<and> n \<le> 122))"

definition isdigit :: "char \<Rightarrow> bool" where
  "isdigit c = (let n = (of_char c :: nat) in 48 \<le> n \<and> n \<le> 57)"

definition isalnum :: "char \<Rightarrow> bool" where
  "isalnum c = (isalpha c \<or> isdigit c)"

datatype TokKind = Tok_ID | Tok_NUM | Tok_STR | Tok_BOOL | Tok_OP | Tok_LP | Tok_RP | Tok_END

datatype Token = Token (tok_kind: TokKind) (tok_text: string)

definition is_id_char :: "char \<Rightarrow> bool" where
  \<comment> \<open>\<^verbatim>\<open>std::isalnum(s[i]) || s[i]=='_' || s[i]=='.'\<close>\<close>
  "is_id_char c = (isalnum c \<or> c = CHR ''_'' \<or> c = CHR ''.'')"

definition is_num_char :: "char \<Rightarrow> bool" where
  \<comment> \<open>\<^verbatim>\<open>std::isdigit(s[i]) || s[i]=='.'\<close>\<close>
  "is_num_char c = (isdigit c \<or> c = CHR ''.'')"

definition is_not_quote :: "char \<Rightarrow> bool" where
  "is_not_quote c = (c \<noteq> CHR 0x22)"

definition match2 :: "char \<Rightarrow> char \<Rightarrow> string \<Rightarrow> bool" where
  \<comment> \<open>\<^verbatim>\<open>i+1<s.size() && s[i]==a && s[i+1]==b\<close>\<close>
  "match2 a b s = (case s of x # y # _ \<Rightarrow> x = a \<and> y = b | _ \<Rightarrow> False)"

text \<open>\<^verbatim>\<open>Lexer::next\<close>. The lexer's state is its position \<open>i\<close> in the input; the model
  passes the unread rest of the input, \<^verbatim>\<open>s.substr(i)\<close>, and returns the token with the
  rest after it.\<close>

definition lex_next :: "string \<Rightarrow> error + (Token \<times> string)" where
  "lex_next s =
     (case dropWhile isspace s of
        [] \<Rightarrow> Inr (Token Tok_END [], [])
      | c # cs \<Rightarrow>
          if isalpha c \<or> c = CHR ''_'' then
            (let ident = c # takeWhile is_id_char cs
             in if ident = ''true'' \<or> ident = ''false''
                then Inr (Token Tok_BOOL ident, dropWhile is_id_char cs)
                else Inr (Token Tok_ID ident, dropWhile is_id_char cs))
          else if isdigit c then
            Inr (Token Tok_NUM (c # takeWhile is_num_char cs), dropWhile is_num_char cs)
          else if c = CHR 0x22 then
            (case dropWhile is_not_quote cs of
               [] \<Rightarrow> Inl UnterminatedString
             | q # rest \<Rightarrow> Inr (Token Tok_STR (takeWhile is_not_quote cs), rest))
          else if match2 (CHR ''&'') (CHR ''&'') (c # cs) then Inr (Token Tok_OP ''&&'', drop 1 cs)
          else if match2 (CHR ''|'') (CHR ''|'') (c # cs) then Inr (Token Tok_OP ''||'', drop 1 cs)
          else if match2 (CHR ''='') (CHR ''='') (c # cs) then Inr (Token Tok_OP ''=='', drop 1 cs)
          else if match2 (CHR ''!'') (CHR ''='') (c # cs) then Inr (Token Tok_OP ''!='', drop 1 cs)
          else if match2 (CHR ''<'') (CHR ''='') (c # cs) then Inr (Token Tok_OP ''<='', drop 1 cs)
          else if match2 (CHR ''>'') (CHR ''='') (c # cs) then Inr (Token Tok_OP ''>='', drop 1 cs)
          else if c = CHR ''<'' \<or> c = CHR ''>'' \<or> c = CHR ''!'' then Inr (Token Tok_OP [c], cs)
          else if c = CHR ''('' then Inr (Token Tok_LP ''('', cs)
          else if c = CHR '')'' then Inr (Token Tok_RP '')'', cs)
          else Inl (UnexpectedChar c))"

section \<open>The parser\<close>

text \<open>\<^verbatim>\<open>std::stod\<close> on the text of a number token (a digit, then digits and dots): the
  digits, a dot and the digits after it are read, the rest of the text is ignored, and the
  decimal number is rounded to the nearest \<^verbatim>\<open>double\<close>. \<^verbatim>\<open>std::out_of_range\<close> is thrown
  when \<^verbatim>\<open>strtod\<close> reports \<^verbatim>\<open>ERANGE\<close>: on overflow (the rounded value would reach
  \<open>2^1024\<close>), and on a result that is below the normal range (under \<open>2^-1022\<close>) and not
  exact.\<close>

definition digits_val :: "string \<Rightarrow> nat" where
  "digits_val ds = foldl (\<lambda>a c. 10 * a + (of_char c - 48)) 0 ds"

definition stod :: "string \<Rightarrow> error + double" where
  "stod s =
     (let ip = takeWhile isdigit s;
          fp = (case dropWhile isdigit s of
                  [] \<Rightarrow> []
                | c # r \<Rightarrow> if c = CHR ''.'' then takeWhile isdigit r else [])
      in if ip = [] \<and> fp = [] then Inl StodInvalidArgument
         else (let q = of_nat (digits_val (ip @ fp)) / 10 ^ length fp;
                   v = round_binary64 q
               in if v \<noteq> 0 \<and> 1024 \<le> ilog2 v then Inl StodOutOfRange
                  else if v \<noteq> q \<and> (v = 0 \<or> ilog2 v < - 1022) then Inl StodOutOfRange
                  else Inr (DFin v)))"

text \<open>The parser's state: the current token \<^verbatim>\<open>cur\<close> and the lexer.\<close>

type_synonym Parser = "Token \<times> string"

definition advance :: "Parser \<Rightarrow> error + Parser" where
  \<comment> \<open>\<^verbatim>\<open>cur=lex.next();\<close>\<close>
  "advance p = lex_next (snd p)"

definition isOp :: "Parser \<Rightarrow> string \<Rightarrow> bool" where
  "isOp p op = (tok_kind (fst p) = Tok_OP \<and> tok_text (fst p) = op)"

definition consume :: "Parser \<Rightarrow> TokKind \<Rightarrow> error \<Rightarrow> error + Parser" where
  "consume p k msg = (if tok_kind (fst p) \<noteq> k then Inl msg else advance p)"

definition is_cmp_op :: "Parser \<Rightarrow> bool" where
  "is_cmp_op p =
     (tok_kind (fst p) = Tok_OP \<and>
      (tok_text (fst p) = ''=='' \<or> tok_text (fst p) = ''!='' \<or> tok_text (fst p) = ''<'' \<or>
       tok_text (fst p) = ''<='' \<or> tok_text (fst p) = ''>'' \<or> tok_text (fst p) = ''>=''))"

definition parseLeaf :: "Parser \<Rightarrow> error + (ExprNode \<times> Parser)" where
  \<comment> \<open>the second half of \<^verbatim>\<open>parsePrimary\<close>: the token is not a left parenthesis\<close>
  "parseLeaf p =
     (let cur = fst p
      in if tok_kind cur = Tok_BOOL then
           (case advance p of
              Inl e \<Rightarrow> Inl e
            | Inr p1 \<Rightarrow> Inr (LEAF (BOOLEAN (tok_text cur = ''true'')), p1))
         else if tok_kind cur = Tok_NUM then
           (case stod (tok_text cur) of
              Inl e \<Rightarrow> Inl e
            | Inr x \<Rightarrow> (case advance p of Inl e \<Rightarrow> Inl e | Inr p1 \<Rightarrow> Inr (LEAF (NUMBER x), p1)))
         else if tok_kind cur = Tok_STR then
           (case advance p of
              Inl e \<Rightarrow> Inl e
            | Inr p1 \<Rightarrow> Inr (LEAF (STRING (tok_text cur)), p1))
         else if tok_kind cur = Tok_ID then
           (case advance p of
              Inl e \<Rightarrow> Inl e
            | Inr p1 \<Rightarrow> Inr (LEAF (IDENT (tok_text cur)), p1))
         else Inl UnexpectedTokenInPrimary)"

text \<open>The recursive descent. The first argument bounds the depth of the recursion, one
  unit for every call; \<open>compileExpression\<close> starts with seven units for every character of
  the input and seven more, which is more than any input uses (\<open>compileExpression_fuel\<close>
  below).\<close>

function (sequential) parseOr :: "nat \<Rightarrow> Parser \<Rightarrow> error + (ExprNode \<times> Parser)"
  and parseOr_loop :: "nat \<Rightarrow> ExprNode \<Rightarrow> Parser \<Rightarrow> error + (ExprNode \<times> Parser)"
  and parseAnd :: "nat \<Rightarrow> Parser \<Rightarrow> error + (ExprNode \<times> Parser)"
  and parseAnd_loop :: "nat \<Rightarrow> ExprNode \<Rightarrow> Parser \<Rightarrow> error + (ExprNode \<times> Parser)"
  and parseNot :: "nat \<Rightarrow> Parser \<Rightarrow> error + (ExprNode \<times> Parser)"
  and parseCmp :: "nat \<Rightarrow> Parser \<Rightarrow> error + (ExprNode \<times> Parser)"
  and parsePrimary :: "nat \<Rightarrow> Parser \<Rightarrow> error + (ExprNode \<times> Parser)" where
  "parseOr 0 p = Inl OutOfFuel"
| "parseOr (Suc n) p =
     (case parseAnd n p of Inl e \<Rightarrow> Inl e | Inr (left, p1) \<Rightarrow> parseOr_loop n left p1)"
| "parseOr_loop 0 left p = Inl OutOfFuel"
| "parseOr_loop (Suc n) left p =
     (if isOp p ''||'' then
        (case advance p of
           Inl e \<Rightarrow> Inl e
         | Inr p1 \<Rightarrow>
             (case parseAnd n p1 of
                Inl e \<Rightarrow> Inl e
              | Inr (right, p2) \<Rightarrow> parseOr_loop n (OR left right) p2))
      else Inr (left, p))"
| "parseAnd 0 p = Inl OutOfFuel"
| "parseAnd (Suc n) p =
     (case parseNot n p of Inl e \<Rightarrow> Inl e | Inr (left, p1) \<Rightarrow> parseAnd_loop n left p1)"
| "parseAnd_loop 0 left p = Inl OutOfFuel"
| "parseAnd_loop (Suc n) left p =
     (if isOp p ''&&'' then
        (case advance p of
           Inl e \<Rightarrow> Inl e
         | Inr p1 \<Rightarrow>
             (case parseNot n p1 of
                Inl e \<Rightarrow> Inl e
              | Inr (right, p2) \<Rightarrow> parseAnd_loop n (AND left right) p2))
      else Inr (left, p))"
| "parseNot 0 p = Inl OutOfFuel"
| "parseNot (Suc n) p =
     (if isOp p ''!'' then
        (case advance p of
           Inl e \<Rightarrow> Inl e
         | Inr p1 \<Rightarrow>
             (case parseNot n p1 of
                Inl e \<Rightarrow> Inl e
              | Inr (child, p2) \<Rightarrow> Inr (NOT child, p2)))
      else parseCmp n p)"
| "parseCmp 0 p = Inl OutOfFuel"
| "parseCmp (Suc n) p =
     (case parsePrimary n p of
        Inl e \<Rightarrow> Inl e
      | Inr (left, p1) \<Rightarrow>
          if is_cmp_op p1 then
            (case advance p1 of
               Inl e \<Rightarrow> Inl e
             | Inr p2 \<Rightarrow>
                 (case parsePrimary n p2 of
                    Inl e \<Rightarrow> Inl e
                  | Inr (right, p3) \<Rightarrow> Inr (CMP (tok_text (fst p1)) left right, p3)))
          else Inr (left, p1))"
| "parsePrimary 0 p = Inl OutOfFuel"
| "parsePrimary (Suc n) p =
     (if tok_kind (fst p) = Tok_LP then
        (case advance p of
           Inl e \<Rightarrow> Inl e
         | Inr p1 \<Rightarrow>
             (case parseOr n p1 of
                Inl e \<Rightarrow> Inl e
              | Inr (e, p2) \<Rightarrow>
                  (case consume p2 Tok_RP ExpectedRParen of
                     Inl err \<Rightarrow> Inl err
                   | Inr p3 \<Rightarrow> Inr (e, p3))))
      else parseLeaf p)"
  by pat_completeness auto

termination
  by (relation "measure (\<lambda>x. case x of
          Inl (Inl (n, _)) \<Rightarrow> n
        | Inl (Inr (Inl (n, _))) \<Rightarrow> n
        | Inl (Inr (Inr (n, _))) \<Rightarrow> n
        | Inr (Inl (Inl (n, _))) \<Rightarrow> n
        | Inr (Inl (Inr (n, _))) \<Rightarrow> n
        | Inr (Inr (Inl (n, _))) \<Rightarrow> n
        | Inr (Inr (Inr (n, _))) \<Rightarrow> n)") auto

definition compileExpression :: "string \<Rightarrow> error + ExprNode" where
  \<comment> \<open>\<^verbatim>\<open>Parser p(expr); return p.parse();\<close> The constructor reads the first token.\<close>
  "compileExpression expr =
     (case lex_next expr of
        Inl e \<Rightarrow> Inl e
      | Inr p \<Rightarrow> (case parseOr (7 * length expr + 7) p of Inl e \<Rightarrow> Inl e | Inr (n, p1) \<Rightarrow> Inr n))"

section \<open>The configuration loader\<close>

text \<open>Modelled from the spec: \<^verbatim>\<open>json.hpp\<close> (the JSON library) and the file system are not among
  the sources. A document is the tree of the configuration document the spec describes (JSON
  scalars, arrays, objects with string keys), a file is absent (it cannot be opened), not
  JSON, or a document, and the accessors below do what the library documents for the calls
  the loader makes.\<close>

datatype json =
    JNull
  | JBool bool
  | JInt "64 word"
  | JFloat double
  | JString string
  | JArray "json list"
  | JObject "(string \<times> json) list"

datatype json_file = NotJson | Json json

type_synonym file_system = "string \<rightharpoonup> json_file"

definition j_contains :: "json \<Rightarrow> string \<Rightarrow> bool" where
  \<comment> \<open>\<^verbatim>\<open>j.contains(key)\<close>: false for anything but an object\<close>
  "j_contains j k = (case j of JObject kvs \<Rightarrow> map_of kvs k \<noteq> None | _ \<Rightarrow> False)"

definition j_at :: "json \<Rightarrow> string \<Rightarrow> error + json" where
  \<comment> \<open>\<^verbatim>\<open>j.at(key)\<close>, and \<^verbatim>\<open>j[key]\<close> where \<^verbatim>\<open>contains\<close> has been checked\<close>
  "j_at j k =
     (case j of
        JObject kvs \<Rightarrow> (case map_of kvs k of Some v \<Rightarrow> Inr v | None \<Rightarrow> Inl JsonOutOfRange)
      | _ \<Rightarrow> Inl JsonTypeError)"

definition j_get_string :: "json \<Rightarrow> error + string" where
  \<comment> \<open>\<^verbatim>\<open>get<std::string>()\<close>\<close>
  "j_get_string j = (case j of JString s \<Rightarrow> Inr s | _ \<Rightarrow> Inl JsonTypeError)"

definition j_string_at :: "json \<Rightarrow> string \<Rightarrow> error + string" where
  \<comment> \<open>\<^verbatim>\<open>j.at(key).get<std::string>()\<close>\<close>
  "j_string_at j k = (case j_at j k of Inl e \<Rightarrow> Inl e | Inr v \<Rightarrow> j_get_string v)"

definition j_elements :: "json \<Rightarrow> json list" where
  \<comment> \<open>what \<^verbatim>\<open>for (auto& x : j)\<close> visits: the elements of an array, the values of an
      object, nothing for null, and a scalar itself\<close>
  "j_elements j =
     (case j of JArray xs \<Rightarrow> xs | JObject kvs \<Rightarrow> map snd kvs | JNull \<Rightarrow> [] | _ \<Rightarrow> [j])"

definition j_items :: "json \<Rightarrow> (string option \<times> json) list" where
  \<comment> \<open>what an iterator from \<^verbatim>\<open>begin()\<close> to \<^verbatim>\<open>end()\<close> visits, with \<^verbatim>\<open>it.key()\<close> (which
      throws unless \<open>j\<close> is an object) and \<^verbatim>\<open>it.value()\<close>\<close>
  "j_items j =
     (case j of
        JObject kvs \<Rightarrow> map (\<lambda>(k, v). (Some k, v)) kvs
      | _ \<Rightarrow> map (Pair None) (j_elements j))"

definition parseValue :: "error \<Rightarrow> json \<Rightarrow> error + Value" where
  \<comment> \<open>\<^verbatim>\<open>DefaultNode::parseValue\<close> and \<^verbatim>\<open>DefaultEdge::parseValue\<close>, which differ in the
      message of the error\<close>
  "parseValue unsupported j =
     (case j of
        JInt i \<Rightarrow> Inr (VInt i)
      | JFloat d \<Rightarrow> Inr (VDouble d)
      | JBool b \<Rightarrow> Inr (VBool b)
      | JString s \<Rightarrow> Inr (VString s)
      | _ \<Rightarrow> Inl unsupported)"

fun parse_bag ::
  "error \<Rightarrow> (string \<rightharpoonup> Value) \<Rightarrow> (string option \<times> json) list \<Rightarrow> error + (string \<rightharpoonup> Value)"
  where
  \<comment> \<open>\<^verbatim>\<open>for (auto it = j[bag].begin(); it != j[bag].end(); ++it)
        n.bag[it.key()] = parseValue(it.value());\<close> (the right side is evaluated first)\<close>
  "parse_bag unsupported m [] = Inr m"
| "parse_bag unsupported m ((k, v) # rest) =
     (case parseValue unsupported v of
        Inl e \<Rightarrow> Inl e
      | Inr x \<Rightarrow>
          (case k of
             None \<Rightarrow> Inl JsonInvalidIterator
           | Some key \<Rightarrow> parse_bag unsupported (m(key \<mapsto> x)) rest))"

definition bag_of :: "error \<Rightarrow> json \<Rightarrow> string \<Rightarrow> error + (string \<rightharpoonup> Value)" where
  \<comment> \<open>\<^verbatim>\<open>if (j.contains(bag)) { for ... }\<close> into an empty map\<close>
  "bag_of unsupported j bag =
     (if j_contains j bag then
        (case j_at j bag of
           Inl e \<Rightarrow> Inl e
         | Inr b \<Rightarrow> parse_bag unsupported Map.empty (j_items b))
      else Inr Map.empty)"

definition node_from_json :: "json \<Rightarrow> error + DefaultNode" where
  "node_from_json j =
     (case j_string_at j ''id'' of
        Inl e \<Rightarrow> Inl e
      | Inr ident \<Rightarrow>
          (case bag_of UnsupportedValueType j ''params'' of
             Inl e \<Rightarrow> Inl e
           | Inr ps \<Rightarrow>
               (case bag_of UnsupportedValueType j ''vars'' of
                  Inl e \<Rightarrow> Inl e
                | Inr vs \<Rightarrow>
                    (case bag_of UnsupportedValueType j ''properties'' of
                       Inl e \<Rightarrow> Inl e
                     | Inr props \<Rightarrow>
                         Inr \<lparr>node_id = ident, params = ps, vars = vs, properties = props\<rparr>))))"

definition edge_from_json :: "json \<Rightarrow> error + DefaultEdge" where
  "edge_from_json j =
     (case j_string_at j ''from'' of
        Inl e \<Rightarrow> Inl e
      | Inr f \<Rightarrow>
          (case j_string_at j ''to'' of
             Inl e \<Rightarrow> Inl e
           | Inr t \<Rightarrow>
               (case j_string_at j ''condition'' of
                  Inl e \<Rightarrow> Inl e
                | Inr c \<Rightarrow>
                    (case compileExpression c of
                       Inl e \<Rightarrow> Inl e
                     | Inr tree \<Rightarrow>
                         (case bag_of UnsupportedActionValueType j ''actions'' of
                            Inl e \<Rightarrow> Inl e
                          | Inr acts \<Rightarrow>
                              Inr \<lparr>e_from = f, e_to = t, condition_expr = c,
                                   compiled = Some tree, actions = acts\<rparr>)))))"

definition phase_edge_from_json :: "json \<Rightarrow> error + DefaultPhaseEdge" where
  "phase_edge_from_json j =
     (case j_string_at j ''from'' of
        Inl e \<Rightarrow> Inl e
      | Inr f \<Rightarrow>
          (case j_string_at j ''to'' of
             Inl e \<Rightarrow> Inl e
           | Inr t \<Rightarrow>
               (case j_string_at j ''condition'' of
                  Inl e \<Rightarrow> Inl e
                | Inr c \<Rightarrow>
                    (case compileExpression c of
                       Inl e \<Rightarrow> Inl e
                     | Inr tree \<Rightarrow>
                         Inr \<lparr>pe_from = f, pe_to = t, pe_condition_expr = c,
                              pe_compiled = Some tree\<rparr>))))"

fun add_nodes :: "StateGraph \<Rightarrow> json list \<Rightarrow> (error + unit) \<times> StateGraph" where
  \<comment> \<open>\<^verbatim>\<open>for (auto& nj : ...) graph.addNode(Node::from_json(nj));\<close>\<close>
  "add_nodes g [] = (Inr (), g)"
| "add_nodes g (nj # rest) =
     (case node_from_json nj of
        Inl e \<Rightarrow> (Inl e, g)
      | Inr n \<Rightarrow> (case addNode g n of Inl e \<Rightarrow> (Inl e, g) | Inr g1 \<Rightarrow> add_nodes g1 rest))"

fun add_edges :: "StateGraph \<Rightarrow> json list \<Rightarrow> (error + unit) \<times> StateGraph" where
  \<comment> \<open>\<^verbatim>\<open>for (auto& ej : ...) graph.addEdge(Edge::from_json(ej));\<close>\<close>
  "add_edges g [] = (Inr (), g)"
| "add_edges g (ej # rest) =
     (case edge_from_json ej of
        Inl e \<Rightarrow> (Inl e, g)
      | Inr ed \<Rightarrow> (case addEdge g ed of Inl e \<Rightarrow> (Inl e, g) | Inr g1 \<Rightarrow> add_edges g1 rest))"

text \<open>\<^verbatim>\<open>StateGraph::loadFromJson\<close>: the file is opened and parsed before the graph is
  cleared. An error after \<^verbatim>\<open>clear()\<close> leaves the graph as far as it was loaded.\<close>

definition sg_loadFromJson ::
  "file_system \<Rightarrow> string \<Rightarrow> StateGraph \<Rightarrow> (error + bool) \<times> StateGraph" where
  "sg_loadFromJson fs filePath g =
     (case fs filePath of
        None \<Rightarrow> (Inr False, g)
      | Some NotJson \<Rightarrow> (Inl JsonParseError, g)
      | Some (Json j) \<Rightarrow>
          (let g0 = sg_clear g
           in case j_at j ''nodes'' of
                Inl e \<Rightarrow> (Inl e, g0)
              | Inr ns \<Rightarrow>
                  (case add_nodes g0 (j_elements ns) of
                     (Inl e, g1) \<Rightarrow> (Inl e, g1)
                   | (Inr u, g1) \<Rightarrow>
                       (case j_at j ''edges'' of
                          Inl e \<Rightarrow> (Inl e, g1)
                        | Inr es \<Rightarrow>
                            (case add_edges g1 (j_elements es) of
                               (Inl e, g2) \<Rightarrow> (Inl e, g2)
                             | (Inr u, g2) \<Rightarrow>
                                 (Inr True,
                                  if nodes g2 \<noteq> [] then g2\<lparr>current_index := Some 0\<rparr>
                                  else g2))))))"

definition load_phase :: "MultiPhaseStateGraph \<Rightarrow> json \<Rightarrow> error + MultiPhaseStateGraph" where
  \<comment> \<open>one round of the loop over \<^verbatim>\<open>j["phases"]\<close>; the phase \<^verbatim>\<open>p\<close> is a local, so an
      error leaves the graph as the earlier rounds left it\<close>
  "load_phase g pj =
     (case j_string_at pj ''id'' of
        Inl e \<Rightarrow> Inl e
      | Inr ident \<Rightarrow>
          if phase_index g ident \<noteq> None then Inl (DuplicatePhaseId ident)
          else
            (case (if j_contains pj ''nodes''
                   then (case j_at pj ''nodes'' of
                           Inl e \<Rightarrow> (Inl e, sg_empty)
                         | Inr ns \<Rightarrow> add_nodes sg_empty (j_elements ns))
                   else (Inr (), sg_empty)) of
               (Inl e, g1) \<Rightarrow> Inl e
             | (Inr u, g1) \<Rightarrow>
                 (case (if j_contains pj ''edges''
                        then (case j_at pj ''edges'' of
                                Inl e \<Rightarrow> (Inl e, g1)
                              | Inr es \<Rightarrow> add_edges g1 (j_elements es))
                        else (Inr (), g1)) of
                    (Inl e, g2) \<Rightarrow> Inl e
                  | (Inr u, g2) \<Rightarrow>
                      (case (if j_contains pj ''initial_state''
                             then j_string_at pj ''initial_state'' else Inr []) of
                         Inl e \<Rightarrow> Inl e
                       | Inr ini \<Rightarrow>
                           Inr (g\<lparr>phase_index := (phase_index g)(ident \<mapsto> length (phases g)),
                                  phases := phases g @
                                    [\<lparr>phase_id = ident,
                                      graph = (if ini \<noteq> [] then snd (setInitialState g2 ini)
                                               else g2),
                                      initial_state = ini\<rparr>],
                                  phase_adj := phase_adj g @ [[]]\<rparr>)))))"

fun load_phases ::
  "MultiPhaseStateGraph \<Rightarrow> json list \<Rightarrow> (error + unit) \<times> MultiPhaseStateGraph" where
  "load_phases g [] = (Inr (), g)"
| "load_phases g (pj # rest) =
     (case load_phase g pj of Inl e \<Rightarrow> (Inl e, g) | Inr g1 \<Rightarrow> load_phases g1 rest)"

definition load_phase_edge ::
  "MultiPhaseStateGraph \<Rightarrow> json \<Rightarrow> error + MultiPhaseStateGraph" where
  "load_phase_edge g fe =
     (case phase_edge_from_json fe of
        Inl e \<Rightarrow> Inl e
      | Inr edge \<Rightarrow>
          (case (phase_index g (pe_from edge), phase_index g (pe_to edge)) of
             (Some fi, Some ti) \<Rightarrow>
               if fi < length (phase_adj g) then
                 Inr (g\<lparr>phase_edges := phase_edges g @ [edge],
                        phase_adj := (phase_adj g)
                          [fi := phase_adj g ! fi @ [length (phase_edges g)]]\<rparr>)
               else Inl UndefinedBehaviour
           | _ \<Rightarrow> Inl PhaseEdgeReferencesUnknownPhase))"

fun load_phase_edges ::
  "MultiPhaseStateGraph \<Rightarrow> json list \<Rightarrow> (error + unit) \<times> MultiPhaseStateGraph" where
  "load_phase_edges g [] = (Inr (), g)"
| "load_phase_edges g (fe # rest) =
     (case load_phase_edge g fe of Inl e \<Rightarrow> (Inl e, g) | Inr g1 \<Rightarrow> load_phase_edges g1 rest)"

definition first_phase_current :: "MultiPhaseStateGraph \<Rightarrow> MultiPhaseStateGraph" where
  \<comment> \<open>\<^verbatim>\<open>if (!phases_.empty()) { current_phase_ = 0; ... }\<close>\<close>
  "first_phase_current g =
     (if phases g \<noteq> [] then
        (let g1 = g\<lparr>current_phase := Some 0\<rparr>; p = phases g1 ! 0
         in if \<not> hasCurrentState (graph p) \<and> initial_state p \<noteq> []
            then set_phase_graph g1 0 (snd (setInitialState (graph p) (initial_state p)))
            else g1)
      else g)"

text \<open>\<^verbatim>\<open>MultiPhaseStateGraph::loadFromJson\<close>: \<^verbatim>\<open>clear()\<close> is its first statement, before the
  file is opened.\<close>

definition mp_loadFromJson ::
  "file_system \<Rightarrow> string \<Rightarrow> MultiPhaseStateGraph \<Rightarrow> (error + bool) \<times> MultiPhaseStateGraph"
  where
  "mp_loadFromJson fs filePath g =
     (let g0 = mp_clear g
      in case fs filePath of
           None \<Rightarrow> (Inr False, g0)
         | Some NotJson \<Rightarrow> (Inl JsonParseError, g0)
         | Some (Json j) \<Rightarrow>
             if \<not> j_contains j ''phases'' then (Inl MissingPhasesArray, g0)
             else
               (case j_at j ''phases'' of
                  Inr (JArray ps) \<Rightarrow>
                    (case load_phases g0 ps of
                       (Inl e, g1) \<Rightarrow> (Inl e, g1)
                     | (Inr u, g1) \<Rightarrow>
                         (case (if j_contains j ''phase_edges''
                                then (case j_at j ''phase_edges'' of
                                        Inl e \<Rightarrow> (Inl e, g1)
                                      | Inr fes \<Rightarrow> load_phase_edges g1 (j_elements fes))
                                else (Inr (), g1)) of
                            (Inl e, g2) \<Rightarrow> (Inl e, g2)
                          | (Inr u, g2) \<Rightarrow> (Inr True, first_phase_current g2)))
                | _ \<Rightarrow> (Inl MissingPhasesArray, g0)))"

section \<open>A sample configuration\<close>

text \<open>The two-phase machine the witnesses run: phase \<open>Main\<close> with the nodes \<open>Idle\<close> and
  \<open>Active\<close>, phase \<open>Recovery\<close> with the node \<open>Wait\<close>, as the loader builds them.\<close>

definition idle_node :: DefaultNode where
  "idle_node = \<lparr>node_id = ''Idle'', params = Map.empty,
                 vars = [''enabled'' \<mapsto> VBool True],
                 properties = [''name'' \<mapsto> VString ''TestNode'']\<rparr>"

definition active_node :: DefaultNode where
  "active_node = \<lparr>node_id = ''Active'', params = Map.empty,
                   vars = [''count'' \<mapsto> VInt 0], properties = Map.empty\<rparr>"

definition wait_node :: DefaultNode where
  "wait_node = \<lparr>node_id = ''Wait'', params = Map.empty, vars = Map.empty,
                 properties = Map.empty\<rparr>"

definition edge_never :: DefaultEdge where
  "edge_never = \<lparr>e_from = ''Idle'', e_to = ''Idle'', condition_expr = ''false'',
                  compiled = Some (LEAF (BOOLEAN False)), actions = Map.empty\<rparr>"

definition edge_start :: DefaultEdge where
  "edge_start = \<lparr>e_from = ''Idle'', e_to = ''Active'', condition_expr = ''enabled'',
                  compiled = Some (LEAF (IDENT ''enabled'')),
                  actions = [''count'' \<mapsto> VInt 1]\<rparr>"

definition edge_late :: DefaultEdge where
  "edge_late = \<lparr>e_from = ''Idle'', e_to = ''Idle'', condition_expr = ''true'',
                 compiled = Some (LEAF (BOOLEAN True)), actions = [''count'' \<mapsto> VInt 7]\<rparr>"

definition edge_back :: DefaultEdge where
  "edge_back = \<lparr>e_from = ''Active'', e_to = ''Idle'', condition_expr = ''count > 5'',
                 compiled = Some (CMP ''>'' (LEAF (IDENT ''count'')) (LEAF (NUMBER (DFin 5)))),
                 actions = Map.empty\<rparr>"

definition main_graph :: StateGraph where
  "main_graph = \<lparr>nodes = [idle_node, active_node],
                  edges = [edge_never, edge_start, edge_late, edge_back],
                  node_index = [''Idle'' \<mapsto> 0, ''Active'' \<mapsto> 1],
                  adjacency = [[0, 1, 2], [3]],
                  current_index = Some 0\<rparr>"

definition recovery_graph :: StateGraph where
  "recovery_graph = \<lparr>nodes = [wait_node], edges = [], node_index = [''Wait'' \<mapsto> 0],
                      adjacency = [[]], current_index = Some 0\<rparr>"

definition pe_recover :: DefaultPhaseEdge where
  "pe_recover = \<lparr>pe_from = ''Main'', pe_to = ''Recovery'', pe_condition_expr = ''count == 1'',
                  pe_compiled =
                    Some (CMP ''=='' (LEAF (IDENT ''count'')) (LEAF (NUMBER (DFin 1))))\<rparr>"

definition pe_resume :: DefaultPhaseEdge where
  "pe_resume = \<lparr>pe_from = ''Recovery'', pe_to = ''Main'', pe_condition_expr = ''true'',
                 pe_compiled = Some (LEAF (BOOLEAN True))\<rparr>"

definition machine :: MultiPhaseStateGraph where
  "machine = \<lparr>phases = [\<lparr>phase_id = ''Main'', graph = main_graph, initial_state = ''Idle''\<rparr>,
                         \<lparr>phase_id = ''Recovery'', graph = recovery_graph,
                          initial_state = ''Wait''\<rparr>],
               phase_index = [''Main'' \<mapsto> 0, ''Recovery'' \<mapsto> 1],
               phase_edges = [pe_recover, pe_resume],
               phase_adj = [[0], [1]],
               current_phase = Some 0\<rparr>"

text \<open>The same machine with a phase edge whose condition names a variable that no node has.\<close>

definition pe_faulty :: DefaultPhaseEdge where
  "pe_faulty = \<lparr>pe_from = ''Main'', pe_to = ''Recovery'', pe_condition_expr = ''missing > 1'',
                 pe_compiled =
                   Some (CMP ''>'' (LEAF (IDENT ''missing'')) (LEAF (NUMBER (DFin 1))))\<rparr>"

definition faulty_machine :: MultiPhaseStateGraph where
  "faulty_machine = machine\<lparr>phase_edges := [pe_faulty, pe_resume]\<rparr>"

text \<open>The machine at \<open>Active\<close>, whose only edge compares \<open>count\<close> with a number, after a
  driver has stored a string in \<open>count\<close>.\<close>

definition stuck_graph :: StateGraph where
  "stuck_graph = main_graph\<lparr>nodes := [idle_node, setVar active_node ''count'' (VString ''two'')],
                            current_index := Some 1\<rparr>"

definition stuck_machine :: MultiPhaseStateGraph where
  "stuck_machine = machine\<lparr>phases := [\<lparr>phase_id = ''Main'', graph = stuck_graph,
                                         initial_state = ''Idle''\<rparr>,
                                        \<lparr>phase_id = ''Recovery'', graph = recovery_graph,
                                         initial_state = ''Wait''\<rparr>]\<rparr>"

text \<open>A machine whose phase \<open>Recovery\<close> declares no initial state, so that its graph has no
  current node.\<close>

definition bare_machine :: MultiPhaseStateGraph where
  "bare_machine = machine\<lparr>phases := [\<lparr>phase_id = ''Main'', graph = main_graph,
                                        initial_state = ''Idle''\<rparr>,
                                       \<lparr>phase_id = ''Recovery'',
                                        graph = recovery_graph\<lparr>current_index := None\<rparr>,
                                        initial_state = []\<rparr>]\<rparr>"


text \<open>The configuration document of the sample machine, and a file system that holds it.\<close>

definition sample_document :: json where
  "sample_document =
     JObject
       [(''phase_edges'',
         JArray
           [JObject [(''condition'', JString ''count == 1''), (''from'', JString ''Main''),
                     (''to'', JString ''Recovery'')],
            JObject [(''condition'', JString ''true''), (''from'', JString ''Recovery''),
                     (''to'', JString ''Main'')]]),
        (''phases'',
         JArray
           [JObject
              [(''edges'',
                JArray
                  [JObject [(''condition'', JString ''false''), (''from'', JString ''Idle''),
                            (''to'', JString ''Idle'')],
                   JObject [(''actions'', JObject [(''count'', JInt 1)]),
                            (''condition'', JString ''enabled''), (''from'', JString ''Idle''),
                            (''to'', JString ''Active'')],
                   JObject [(''actions'', JObject [(''count'', JInt 7)]),
                            (''condition'', JString ''true''), (''from'', JString ''Idle''),
                            (''to'', JString ''Idle'')],
                   JObject [(''condition'', JString ''count > 5''), (''from'', JString ''Active''),
                            (''to'', JString ''Idle'')]]),
               (''id'', JString ''Main''),
               (''initial_state'', JString ''Idle''),
               (''nodes'',
                JArray
                  [JObject [(''id'', JString ''Idle''),
                            (''properties'', JObject [(''name'', JString ''TestNode'')]),
                            (''vars'', JObject [(''enabled'', JBool True)])],
                   JObject [(''id'', JString ''Active''),
                            (''vars'', JObject [(''count'', JInt 0)])]])],
            JObject
              [(''id'', JString ''Recovery''),
               (''initial_state'', JString ''Wait''),
               (''nodes'', JArray [JObject [(''id'', JString ''Wait'')]])]])]"

definition sample_files :: file_system where
  "sample_files = [''sample_graph.json'' \<mapsto> Json sample_document]"

section \<open>Facts about values and expressions\<close>


lemma d_of_int64_0: "d_of_int64 0 = DFin 0"
  by code_simp

lemma d_of_int64_1: "d_of_int64 1 = DFin 1"
  by code_simp

lemmas sample_defs = idle_node_def active_node_def wait_node_def edge_never_def edge_start_def
  edge_late_def edge_back_def main_graph_def recovery_graph_def pe_recover_def pe_resume_def
  machine_def pe_faulty_def faulty_machine_def stuck_graph_def stuck_machine_def
  bare_machine_def

lemmas eval_defs = evaluate_def pe_evaluate_def getVar_def getProperty_def setVar_def
  is_property_name_def truthy_def extractLeaf_def compare_def valueEquals_def
  toNumberPromote_def is_numeric_def d_eq_def d_ne_def d_le_def d_gt_def d_ge_def
  d_of_int64_0 d_of_int64_1

lemmas step_defs = mp_step_def mp_next_def sg_step_def currentStateId_def currentNode_def
  take_edge_def index_or_insert_def apply_actions_def enter_phase_def step_result_def
  mp_currentPhaseId_def mp_currentStateId_def set_phase_graph_def hasCurrentState_def
  setInitialState_def setInitialPhase_def

text \<open>
  Claim C6. An identifier leaf that begins with \<open>properties.\<close> is looked up, without the
  prefix, in the node's properties, any other identifier in the node's vars. In boolean
  position an absent name is false; as an operand of a comparison (left or right) it raises
  the unknown-name error.
\<close>

theorem identifier_lookup:
  assumes "found = (if take 11 t = ''properties.'' then properties node (drop 11 t)
                    else vars node t)"
    and "unknown = (if take 11 t = ''properties.'' then UnknownProperty (drop 11 t)
                    else UnknownVar t)"
  shows "eval (LEAF (IDENT t)) node = Inr (case found of None \<Rightarrow> False | Some v \<Rightarrow> truthy v) \<and>
         extractValue (LEAF (IDENT t)) node = (case found of None \<Rightarrow> Inl unknown | Some v \<Rightarrow> Inr v) \<and>
         (found = None \<longrightarrow>
            eval (LEAF (IDENT t)) node = Inr False \<and>
            eval (CMP c (LEAF (IDENT t)) r) node = Inl unknown \<and>
            (\<forall>lv. extractValue l node = Inr lv \<longrightarrow>
                  eval (CMP c l (LEAF (IDENT t))) node = Inl unknown))"
  using assms
  by (auto simp: extractLeaf_def is_property_name_def getVar_def getProperty_def
      split: option.splits)

theorem identifier_lookup_witness:
  "eval (LEAF (IDENT ''count'')) idle_node = Inr False \<and>
   eval (CMP ''>'' (LEAF (IDENT ''count'')) (LEAF (NUMBER (DFin 1)))) idle_node
     = Inl (UnknownVar ''count'') \<and>
   eval (CMP ''=='' (LEAF (STRING ''a'')) (LEAF (IDENT ''count''))) idle_node
     = Inl (UnknownVar ''count'') \<and>
   eval (LEAF (IDENT ''properties.name'')) idle_node = Inr True \<and>
   eval (LEAF (IDENT ''properties.size'')) idle_node = Inr False \<and>
   eval (CMP ''<'' (LEAF (IDENT ''properties.size'')) (LEAF (NUMBER (DFin 1)))) idle_node
     = Inl (UnknownProperty ''size'') \<and>
   eval (LEAF (IDENT ''name'')) idle_node = Inr False"
proof -
  have v: "None = (if take 11 ''count'' = ''properties.'' then properties idle_node (drop 11 ''count'')
                   else vars idle_node ''count'')"
    by (simp add: idle_node_def)
  have u: "UnknownVar ''count'' = (if take 11 ''count'' = ''properties.''
             then UnknownProperty (drop 11 ''count'') else UnknownVar ''count'')"
    by simp
  have l: "extractValue (LEAF (STRING ''a'')) idle_node = Inr (VString ''a'')"
    by (simp add: extractLeaf_def)
  have p: "Some (VString ''TestNode'') = (if take 11 ''properties.name'' = ''properties.''
             then properties idle_node (drop 11 ''properties.name'')
             else vars idle_node ''properties.name'')"
    by (simp add: idle_node_def)
  have q: "None = (if take 11 ''properties.size'' = ''properties.''
             then properties idle_node (drop 11 ''properties.size'')
             else vars idle_node ''properties.size'')"
    by (simp add: idle_node_def)
  have w: "UnknownProperty ''size'' = (if take 11 ''properties.size'' = ''properties.''
             then UnknownProperty (drop 11 ''properties.size'')
             else UnknownVar ''properties.size'')"
    by simp
  have n: "None = (if take 11 ''name'' = ''properties.'' then properties idle_node (drop 11 ''name'')
                   else vars idle_node ''name'')"
    by (simp add: idle_node_def)
  from identifier_lookup [OF v u, of "''>''" "LEAF (NUMBER (DFin 1))" "LEAF (STRING ''a'')"]
    identifier_lookup [OF v u, of "''==''" "LEAF (NUMBER (DFin 1))" "LEAF (STRING ''a'')"] l
    identifier_lookup [OF p refl, of "''==''" "LEAF (NUMBER (DFin 1))" "LEAF (STRING ''a'')"]
    identifier_lookup [OF q w, of "''<''" "LEAF (NUMBER (DFin 1))" "LEAF (STRING ''a'')"]
    identifier_lookup [OF n refl, of "''<''" "LEAF (NUMBER (DFin 1))" "LEAF (STRING ''a'')"]
  show ?thesis
    by (simp add: truthy_def)
qed

subsection \<open>Widening an integer\<close>











text \<open>
  Claim C9. An edge with no compiled condition always fires; a phase edge with no compiled
  condition never fires.
\<close>

theorem missing_condition_defaults:
  "(compiled e = None \<longrightarrow> evaluate e n = Inr True) \<and>
   (pe_compiled pe = None \<longrightarrow> pe_evaluate pe n = Inr False)"
  by (simp add: evaluate_def pe_evaluate_def)

theorem missing_condition_defaults_witness:
  "compiled (edge_never\<lparr>compiled := None\<rparr>) = None \<and>
   evaluate (edge_never\<lparr>compiled := None\<rparr>) idle_node = Inr True \<and>
   pe_compiled (pe_resume\<lparr>pe_compiled := None\<rparr>) = None \<and>
   pe_evaluate (pe_resume\<lparr>pe_compiled := None\<rparr>) idle_node = Inr False"
  using missing_condition_defaults [of "edge_never\<lparr>compiled := None\<rparr>" idle_node
      "pe_resume\<lparr>pe_compiled := None\<rparr>"]
  by simp

section \<open>Facts about the lexer and the parser\<close>


subsection \<open>The recursion bound is never reached\<close>

definition psize :: "Parser \<Rightarrow> nat" where
  \<comment> \<open>what is left to parse: the unread input, and the current token unless it is the end\<close>
  "psize p = length (snd p) + (if tok_kind (fst p) = Tok_END then 0 else 1)"

definition fuel_ok :: "(nat \<Rightarrow> Parser \<Rightarrow> error + (ExprNode \<times> Parser)) \<Rightarrow> nat \<Rightarrow> nat \<Rightarrow> bool" where
  \<comment> \<open>with \<open>n\<close> units, \<open>f\<close> needs no more than \<open>7 * psize p + k\<close> of them and leaves no
      more to parse than it found\<close>
  "fuel_ok f k n =
     (\<forall>p. 7 * psize p + k \<le> n \<longrightarrow>
          f n p \<noteq> Inl OutOfFuel \<and> (\<forall>t p'. f n p = Inr (t, p') \<longrightarrow> psize p' \<le> psize p))"

lemma fuel_okD:
  assumes "fuel_ok f k n" "7 * psize p + k \<le> n"
  shows "f n p \<noteq> Inl OutOfFuel" and "f n p = Inr (t, p') \<Longrightarrow> psize p' \<le> psize p"
  using assms unfolding fuel_ok_def by blast+

lemma lex_next_size:
  assumes "lex_next s = Inr p"
  shows "psize p \<le> length s"
proof (cases "dropWhile isspace s")
  case Nil
  with assms show ?thesis by (auto simp: lex_next_def psize_def)
next
  case (Cons c cs)
  have le: "Suc (length cs) \<le> length s"
    using length_dropWhile_le [of isspace s] Cons by simp
  have d: "length (dropWhile P cs) \<le> length cs" for P
    by (rule length_dropWhile_le)
  have q: "dropWhile is_not_quote cs = x # r \<Longrightarrow> length r < length cs" for x r
    using d [of is_not_quote] by simp
  from assms Cons have "length (snd p) \<le> length cs"
    using d [of is_id_char] d [of is_num_char]
    by (auto simp: lex_next_def Let_def split: if_splits list.splits dest: q)
  with le show ?thesis by (simp add: psize_def)
qed

lemma lex_next_no_fuel: "lex_next s \<noteq> Inl OutOfFuel"
  by (auto simp: lex_next_def Let_def split: list.splits)

lemma advance_no_fuel: "advance p \<noteq> Inl OutOfFuel"
  by (simp add: advance_def lex_next_no_fuel)

lemma advance_size:
  assumes "advance p = Inr p1" "tok_kind (fst p) \<noteq> Tok_END"
  shows "Suc (psize p1) \<le> psize p"
  using lex_next_size [of "snd p" p1] assms by (simp add: advance_def psize_def)

lemma advance_size_le:
  assumes "advance p = Inr p1"
  shows "psize p1 \<le> psize p"
  using lex_next_size [of "snd p" p1] assms by (simp add: advance_def psize_def)

lemma stod_no_fuel: "stod s \<noteq> Inl OutOfFuel"
  by (simp add: stod_def Let_def)

lemma parseLeaf_no_fuel: "parseLeaf p \<noteq> Inl OutOfFuel"
  using advance_no_fuel [of p] stod_no_fuel [of "tok_text (fst p)"]
  by (auto simp: parseLeaf_def Let_def split: sum.splits)

lemma parseLeaf_size:
  assumes "parseLeaf p = Inr (t, p1)"
  shows "psize p1 \<le> psize p"
  using assms advance_size_le [of p p1]
  by (auto simp: parseLeaf_def Let_def split: sum.splits if_splits)

lemma isOp_not_end: "isOp p op \<Longrightarrow> tok_kind (fst p) \<noteq> Tok_END"
  by (simp add: isOp_def)

lemma is_cmp_op_not_end: "is_cmp_op p \<Longrightarrow> tok_kind (fst p) \<noteq> Tok_END"
  by (simp add: is_cmp_op_def)

lemma parsePrimary_fuel_ok:
  assumes "fuel_ok parseOr 7 n"
  shows "fuel_ok parsePrimary 1 (Suc n)"
  unfolding fuel_ok_def
proof (intro allI impI)
  fix p
  assume b: "7 * psize p + 1 \<le> Suc n"
  show "parsePrimary (Suc n) p \<noteq> Inl OutOfFuel \<and>
        (\<forall>t p'. parsePrimary (Suc n) p = Inr (t, p') \<longrightarrow> psize p' \<le> psize p)"
  proof (cases "tok_kind (fst p) = Tok_LP")
    case False
    then show ?thesis
      using parseLeaf_no_fuel [of p] parseLeaf_size [of p] by auto
  next
    case True
    show ?thesis
    proof (cases "advance p")
      case (Inl e)
      with True advance_no_fuel [of p] show ?thesis by auto
    next
      case (Inr p1)
      from advance_size [OF Inr] True have s1: "Suc (psize p1) \<le> psize p" by simp
      with b have b1: "7 * psize p1 + 7 \<le> n" by simp
      show ?thesis
      proof (cases "parseOr n p1")
        case (Inl e)
        with fuel_okD(1) [OF assms b1] True Inr show ?thesis by auto
      next
        case r: (Inr r)
        obtain e p2 where r2: "r = (e, p2)" by (cases r)
        from fuel_okD(2) [OF assms b1] r r2 have s2: "psize p2 \<le> psize p1" by simp
        show ?thesis
        proof (cases "consume p2 Tok_RP ExpectedRParen")
          case (Inl err)
          then have "err \<noteq> OutOfFuel"
            using advance_no_fuel [of p2] by (auto simp: consume_def split: if_splits)
          with True Inr r r2 Inl show ?thesis by auto
        next
          case p3: (Inr p3)
          then have "psize p3 \<le> psize p2"
            using advance_size_le [of p2 p3] by (auto simp: consume_def split: if_splits)
          with s1 s2 True Inr r r2 p3 show ?thesis by auto
        qed
      qed
    qed
  qed
qed

lemma parseCmp_fuel_ok:
  assumes "fuel_ok parsePrimary 1 n"
  shows "fuel_ok parseCmp 2 (Suc n)"
  unfolding fuel_ok_def
proof (intro allI impI)
  fix p
  assume b: "7 * psize p + 2 \<le> Suc n"
  then have b0: "7 * psize p + 1 \<le> n" by simp
  show "parseCmp (Suc n) p \<noteq> Inl OutOfFuel \<and>
        (\<forall>t p'. parseCmp (Suc n) p = Inr (t, p') \<longrightarrow> psize p' \<le> psize p)"
  proof (cases "parsePrimary n p")
    case (Inl e)
    with fuel_okD(1) [OF assms b0] show ?thesis by auto
  next
    case r: (Inr r)
    obtain left p1 where r1: "r = (left, p1)" by (cases r)
    from fuel_okD(2) [OF assms b0] r r1 have s1: "psize p1 \<le> psize p" by simp
    show ?thesis
    proof (cases "is_cmp_op p1")
      case False
      with r r1 s1 show ?thesis by auto
    next
      case True
      show ?thesis
      proof (cases "advance p1")
        case (Inl e)
        with True r r1 advance_no_fuel [of p1] show ?thesis by auto
      next
        case (Inr p2)
        from advance_size [OF Inr is_cmp_op_not_end [OF True]] have s2: "Suc (psize p2) \<le> psize p1" .
        with s1 b0 have b2: "7 * psize p2 + 1 \<le> n" by simp
        show ?thesis
        proof (cases "parsePrimary n p2")
          case (Inl e)
          with fuel_okD(1) [OF assms b2] True r r1 Inr show ?thesis by auto
        next
          case q: (Inr q)
          obtain right p3 where q3: "q = (right, p3)" by (cases q)
          from fuel_okD(2) [OF assms b2] q q3 have "psize p3 \<le> psize p2" by simp
          with s1 s2 True r r1 Inr q q3 show ?thesis by auto
        qed
      qed
    qed
  qed
qed

lemma parseNot_fuel_ok:
  assumes "fuel_ok parseNot 3 n" "fuel_ok parseCmp 2 n"
  shows "fuel_ok parseNot 3 (Suc n)"
  unfolding fuel_ok_def
proof (intro allI impI)
  fix p
  assume b: "7 * psize p + 3 \<le> Suc n"
  then have b0: "7 * psize p + 2 \<le> n" by simp
  show "parseNot (Suc n) p \<noteq> Inl OutOfFuel \<and>
        (\<forall>t p'. parseNot (Suc n) p = Inr (t, p') \<longrightarrow> psize p' \<le> psize p)"
  proof (cases "isOp p ''!''")
    case False
    with fuel_okD [OF assms(2) b0] show ?thesis by auto
  next
    case True
    show ?thesis
    proof (cases "advance p")
      case (Inl e)
      with True advance_no_fuel [of p] show ?thesis by auto
    next
      case (Inr p1)
      from advance_size [OF Inr isOp_not_end [OF True]] have s1: "Suc (psize p1) \<le> psize p" .
      with b have b1: "7 * psize p1 + 3 \<le> n" by simp
      show ?thesis
      proof (cases "parseNot n p1")
        case (Inl e)
        with fuel_okD(1) [OF assms(1) b1] True Inr show ?thesis by auto
      next
        case r: (Inr r)
        obtain child p2 where r2: "r = (child, p2)" by (cases r)
        from fuel_okD(2) [OF assms(1) b1] r r2 have "psize p2 \<le> psize p1" by simp
        with s1 True Inr r r2 show ?thesis by auto
      qed
    qed
  qed
qed

lemma loop_fuel_ok:
  fixes loop :: "nat \<Rightarrow> ExprNode \<Rightarrow> Parser \<Rightarrow> error + (ExprNode \<times> Parser)"
  assumes eq: "\<And>left p. loop (Suc n) left p =
      (if isOp p op then
         (case advance p of
            Inl e \<Rightarrow> Inl e
          | Inr p1 \<Rightarrow>
              (case operand n p1 of
                 Inl e \<Rightarrow> Inl e
               | Inr (right, p2) \<Rightarrow> loop n (mk left right) p2))
       else Inr (left, p))"
    and operand: "fuel_ok operand j n" and "j < k"
    and loop: "\<And>left. fuel_ok (\<lambda>n. loop n left) k n"
  shows "fuel_ok (\<lambda>n. loop n left) k (Suc n)"
  unfolding fuel_ok_def
proof (intro allI impI)
  fix p
  assume b: "7 * psize p + k \<le> Suc n"
  show "loop (Suc n) left p \<noteq> Inl OutOfFuel \<and>
        (\<forall>t p'. loop (Suc n) left p = Inr (t, p') \<longrightarrow> psize p' \<le> psize p)"
  proof (cases "isOp p op")
    case False
    then show ?thesis by (simp add: eq)
  next
    case True
    show ?thesis
    proof (cases "advance p")
      case (Inl e)
      with True advance_no_fuel [of p] show ?thesis by (auto simp: eq)
    next
      case (Inr p1)
      from advance_size [OF Inr isOp_not_end [OF True]] have s1: "Suc (psize p1) \<le> psize p" .
      with b \<open>j < k\<close> have b1: "7 * psize p1 + j \<le> n" by simp
      show ?thesis
      proof (cases "operand n p1")
        case (Inl e)
        with fuel_okD(1) [OF operand b1] True Inr show ?thesis by (auto simp: eq)
      next
        case r: (Inr r)
        obtain right p2 where r2: "r = (right, p2)" by (cases r)
        from fuel_okD(2) [OF operand b1] r r2 have s2: "psize p2 \<le> psize p1" by simp
        with s1 b have b2: "7 * psize p2 + k \<le> n" by simp
        from fuel_okD [OF loop b2, of "mk left right"] s1 s2 True Inr r r2
        show ?thesis by (auto simp: eq)
      qed
    qed
  qed
qed

lemma seq_fuel_ok:
  fixes f :: "nat \<Rightarrow> Parser \<Rightarrow> error + (ExprNode \<times> Parser)"
  assumes eq: "\<And>p. f (Suc n) p =
      (case operand n p of Inl e \<Rightarrow> Inl e | Inr (left, p1) \<Rightarrow> loop n left p1)"
    and operand: "fuel_ok operand j n" and "j < k"
    and loop: "\<And>left. fuel_ok (\<lambda>n. loop n left) k n"
  shows "fuel_ok f (Suc k) (Suc n)"
  unfolding fuel_ok_def
proof (intro allI impI)
  fix p
  assume b: "7 * psize p + Suc k \<le> Suc n"
  with \<open>j < k\<close> have b0: "7 * psize p + j \<le> n" by simp
  show "f (Suc n) p \<noteq> Inl OutOfFuel \<and>
        (\<forall>t p'. f (Suc n) p = Inr (t, p') \<longrightarrow> psize p' \<le> psize p)"
  proof (cases "operand n p")
    case (Inl e)
    with fuel_okD(1) [OF operand b0] show ?thesis by (auto simp: eq)
  next
    case r: (Inr r)
    obtain left p1 where r1: "r = (left, p1)" by (cases r)
    from fuel_okD(2) [OF operand b0] r r1 have s1: "psize p1 \<le> psize p" by simp
    with b have b1: "7 * psize p1 + k \<le> n" by simp
    from fuel_okD [OF loop b1, of left] s1 r r1 show ?thesis by (auto simp: eq)
  qed
qed

lemma parser_fuel_ok:
  "fuel_ok parseOr 7 n \<and> (\<forall>left. fuel_ok (\<lambda>n. parseOr_loop n left) 6 n) \<and>
   fuel_ok parseAnd 5 n \<and> (\<forall>left. fuel_ok (\<lambda>n. parseAnd_loop n left) 4 n) \<and>
   fuel_ok parseNot 3 n \<and> fuel_ok parseCmp 2 n \<and> fuel_ok parsePrimary 1 n"
proof (induction n)
  case 0
  show ?case by (simp add: fuel_ok_def)
next
  case (Suc n)
  then have IH: "fuel_ok parseOr 7 n" "\<And>left. fuel_ok (\<lambda>n. parseOr_loop n left) 6 n"
    "fuel_ok parseAnd 5 n" "\<And>left. fuel_ok (\<lambda>n. parseAnd_loop n left) 4 n"
    "fuel_ok parseNot 3 n" "fuel_ok parseCmp 2 n" "fuel_ok parsePrimary 1 n"
    by blast+
  have "fuel_ok parseOr (Suc 6) (Suc n)"
    by (rule seq_fuel_ok [where operand = parseAnd and loop = parseOr_loop and j = 5])
       (simp_all add: IH)
  moreover have "fuel_ok (\<lambda>n. parseOr_loop n left) 6 (Suc n)" for left
    by (rule loop_fuel_ok [where operand = parseAnd and op = "''||''" and mk = OR and j = 5])
       (simp_all add: IH)
  moreover have "fuel_ok parseAnd (Suc 4) (Suc n)"
    by (rule seq_fuel_ok [where operand = parseNot and loop = parseAnd_loop and j = 3])
       (simp_all add: IH)
  moreover have "fuel_ok (\<lambda>n. parseAnd_loop n left) 4 (Suc n)" for left
    by (rule loop_fuel_ok [where operand = parseNot and op = "''&&''" and mk = AND and j = 3])
       (simp_all add: IH)
  moreover have "fuel_ok parseNot 3 (Suc n)"
    by (rule parseNot_fuel_ok [OF IH(5) IH(6)])
  moreover have "fuel_ok parseCmp 2 (Suc n)"
    by (rule parseCmp_fuel_ok [OF IH(7)])
  moreover have "fuel_ok parsePrimary 1 (Suc n)"
    by (rule parsePrimary_fuel_ok [OF IH(1)])
  ultimately show ?case by simp
qed

lemma compileExpression_fuel: "compileExpression expr \<noteq> Inl OutOfFuel"
proof (cases "lex_next expr")
  case (Inl e)
  with lex_next_no_fuel [of expr] show ?thesis by (auto simp: compileExpression_def)
next
  case (Inr p)
  from lex_next_size [OF Inr] have "7 * psize p + 7 \<le> 7 * length expr + 7" by simp
  from fuel_okD(1) [OF _ this, of parseOr] parser_fuel_ok [of "7 * length expr + 7"]
  have "parseOr (7 * length expr + 7) p \<noteq> Inl OutOfFuel" by blast
  with Inr show ?thesis by (auto simp: compileExpression_def split: sum.splits)
qed

subsection \<open>What the parser accepts\<close>



text \<open>
  Claim C1. The lexer has no case for \<open>-\<close>: it is an unexpected character, in \<open>-1\<close> and
  in \<open>x > -1\<close>, so the expression of the claim does not compile (and is never evaluated).
  The repository's tests \<^verbatim>\<open>LexerTest.NegativeNumbers\<close> and
  \<^verbatim>\<open>ExpressionTest.NegativeNumbers\<close> expect the number token \<open>-1\<close> and the value true.
\<close>

theorem negative_literal_rejected:
  "lex_next ''-1'' = Inl (UnexpectedChar (CHR ''-'')) \<and>
   compileExpression ''-1'' = Inl (UnexpectedChar (CHR ''-'')) \<and>
   compileExpression ''x > -1'' = Inl (UnexpectedChar (CHR ''-'')) \<and>
   compileExpression ''x > 1'' = Inr (CMP ''>'' (LEAF (IDENT ''x'')) (LEAF (NUMBER (DFin 1))))"
  by code_simp



section \<open>The node-level step\<close>

lemma apply_actions_id [simp]: "node_id (apply_actions d a) = node_id d"
  by (simp add: apply_actions_def)

lemma step_edges_skip:
  assumes "\<forall>j \<in> set pre. j < length (edges g) \<and> evaluate (edges g ! j) cur = Inr False"
  shows "step_edges g cur (pre @ rest) = step_edges g cur rest"
  using assms by (induction pre) auto

lemma take_edge_known:
  assumes "node_index g (e_to e) = Some d" "d < length (nodes g)"
  shows "take_edge g e =
           (Inr (Some (node_id (nodes g ! d))),
            g\<lparr>current_index := Some d,
              nodes := (nodes g)[d := (nodes g ! d)\<lparr>vars := vars (nodes g ! d) ++ actions e\<rparr>]\<rparr>)"
  using assms by (simp add: take_edge_def index_or_insert_def apply_actions_def Let_def)

text \<open>
  Claim C5. \<open>addEdge\<close> appends the index of the new edge to the adjacency list of its
  \<open>from\<close> node, so an adjacency list is in declaration order. A step from a node walks that
  list from the front: when the edges before edge \<open>k\<close> evaluate to false and edge \<open>k\<close> to true,
  the current index becomes the index \<open>d\<close> of the node \<open>e_to\<close> names, the vars of node \<open>d\<close>
  become \<open>vars ++ actions\<close> (every action entry stored, over any older value of its key;
  nothing else in the graph changes) and the step returns the id of node \<open>d\<close>; when every
  edge evaluates to false the step returns no transition and the graph as it was.
\<close>

theorem sg_step_first_match:
  assumes cur: "current_index g = Some i" "i < length (nodes g)" "i < length (adjacency g)"
    and wf: "\<forall>k \<in> set (adjacency g ! i). k < length (edges g)"
  shows "(\<forall>pre k post d.
            adjacency g ! i = pre @ k # post \<and>
            (\<forall>j \<in> set pre. evaluate (edges g ! j) (nodes g ! i) = Inr False) \<and>
            evaluate (edges g ! k) (nodes g ! i) = Inr True \<and>
            node_index g (e_to (edges g ! k)) = Some d \<and> d < length (nodes g)
          \<longrightarrow> sg_step g =
                (Inr (Some (node_id (nodes g ! d))),
                 g\<lparr>current_index := Some d,
                   nodes := (nodes g)[d := (nodes g ! d)
                      \<lparr>vars := vars (nodes g ! d) ++ actions (edges g ! k)\<rparr>]\<rparr>)) \<and>
         ((\<forall>j \<in> set (adjacency g ! i). evaluate (edges g ! j) (nodes g ! i) = Inr False)
          \<longrightarrow> sg_step g = (Inr None, g)) \<and>
         (\<forall>e fi ti. node_index g (e_from e) = Some fi \<and> node_index g (e_to e) = Some ti \<and>
               fi < length (adjacency g)
          \<longrightarrow> addEdge g e =
                Inr (g\<lparr>edges := edges g @ [e],
                       adjacency := (adjacency g)[fi := adjacency g ! fi @ [length (edges g)]]\<rparr>))"
proof (intro conjI allI impI)
  fix pre k post d
  assume h: "adjacency g ! i = pre @ k # post \<and>
            (\<forall>j \<in> set pre. evaluate (edges g ! j) (nodes g ! i) = Inr False) \<and>
            evaluate (edges g ! k) (nodes g ! i) = Inr True \<and>
            node_index g (e_to (edges g ! k)) = Some d \<and> d < length (nodes g)"
  from h wf have pre: "\<forall>j \<in> set pre. j < length (edges g) \<and>
      evaluate (edges g ! j) (nodes g ! i) = Inr False"
    by auto
  from h wf have k: "k < length (edges g)" by auto
  have "sg_step g = step_edges g (nodes g ! i) (pre @ k # post)"
    using cur h by (simp add: sg_step_def)
  also have "\<dots> = step_edges g (nodes g ! i) (k # post)"
    by (rule step_edges_skip [OF pre])
  also have "\<dots> = take_edge g (edges g ! k)"
    using k h by simp
  finally show "sg_step g =
                (Inr (Some (node_id (nodes g ! d))),
                 g\<lparr>current_index := Some d,
                   nodes := (nodes g)[d := (nodes g ! d)
                      \<lparr>vars := vars (nodes g ! d) ++ actions (edges g ! k)\<rparr>]\<rparr>)"
    using h by (simp add: take_edge_known)
next
  assume h: "\<forall>j \<in> set (adjacency g ! i). evaluate (edges g ! j) (nodes g ! i) = Inr False"
  with wf have "\<forall>j \<in> set (adjacency g ! i). j < length (edges g) \<and>
      evaluate (edges g ! j) (nodes g ! i) = Inr False"
    by auto
  from step_edges_skip [OF this, of "[]"] cur
  show "sg_step g = (Inr None, g)"
    by (simp add: sg_step_def)
next
  fix e :: DefaultEdge and fi ti :: nat
  assume "node_index g (e_from e) = Some fi \<and> node_index g (e_to e) = Some ti \<and>
          fi < length (adjacency g)"
  then show "addEdge g e =
        Inr (g\<lparr>edges := edges g @ [e],
               adjacency := (adjacency g)[fi := adjacency g ! fi @ [length (edges g)]]\<rparr>)"
    by (simp add: addEdge_def)
qed

theorem sg_step_first_match_witness:
  "sg_step main_graph =
     (Inr (Some ''Active''),
      main_graph\<lparr>current_index := Some 1,
                 nodes := [idle_node, active_node\<lparr>vars := [''count'' \<mapsto> VInt 1]\<rparr>]\<rparr>) \<and>
   sg_step (main_graph\<lparr>current_index := Some 1\<rparr>) = (Inr None, main_graph\<lparr>current_index := Some 1\<rparr>) \<and>
   addEdge main_graph edge_start =
     Inr (main_graph\<lparr>edges := [edge_never, edge_start, edge_late, edge_back, edge_start],
                     adjacency := [[0, 1, 2, 4], [3]]\<rparr>)"
proof -
  have c: "current_index main_graph = Some 0" "0 < length (nodes main_graph)"
    "0 < length (adjacency main_graph)"
    "\<forall>k \<in> set (adjacency main_graph ! 0). k < length (edges main_graph)"
    by (simp_all add: main_graph_def)
  have fire: "adjacency main_graph ! 0 = [0] @ 1 # [2] \<and>
     (\<forall>j \<in> set [0]. evaluate (edges main_graph ! j) (nodes main_graph ! 0) = Inr False) \<and>
     evaluate (edges main_graph ! 1) (nodes main_graph ! 0) = Inr True \<and>
     node_index main_graph (e_to (edges main_graph ! 1)) = Some 1 \<and>
     1 < length (nodes main_graph)"
    by (simp add: sample_defs eval_defs)
  have add: "node_index main_graph (e_from edge_start) = Some 0 \<and>
     node_index main_graph (e_to edge_start) = Some 1 \<and> 0 < length (adjacency main_graph)"
    by (simp add: sample_defs)
  let ?q = "main_graph\<lparr>current_index := Some 1\<rparr>"
  have c': "current_index ?q = Some 1" "1 < length (nodes ?q)" "1 < length (adjacency ?q)"
    "\<forall>k \<in> set (adjacency ?q ! 1). k < length (edges ?q)"
    by (simp_all add: main_graph_def)
  have quiet: "\<forall>j \<in> set (adjacency ?q ! 1). evaluate (edges ?q ! j) (nodes ?q ! 1) = Inr False"
    by (simp add: sample_defs eval_defs)
  from sg_step_first_match [OF c] fire add
  have "sg_step main_graph =
          (Inr (Some (node_id (nodes main_graph ! 1))),
           main_graph\<lparr>current_index := Some 1,
             nodes := (nodes main_graph)[1 := (nodes main_graph ! 1)
               \<lparr>vars := vars (nodes main_graph ! 1) ++ actions (edges main_graph ! 1)\<rparr>]\<rparr>)"
    and "addEdge main_graph edge_start =
          Inr (main_graph\<lparr>edges := edges main_graph @ [edge_start],
                 adjacency := (adjacency main_graph)
                   [0 := adjacency main_graph ! 0 @ [length (edges main_graph)]]\<rparr>)"
    by blast+
  moreover from sg_step_first_match [OF c'] quiet have "sg_step ?q = (Inr None, ?q)"
    by blast
  ultimately show ?thesis
    by (simp add: sample_defs)
qed

section \<open>The hierarchical step\<close>

text \<open>
  Claim C10. With a current phase whose graph has no current node, the hierarchical step
  returns no result: it raises the no-current-state error (the graph is as it was), although
  the node-level step of that graph is a no-op that reports nothing.
\<close>

theorem step_without_current_node:
  assumes "current_phase g = Some cp" "cp < length (phases g)"
    and "current_index (graph (phases g ! cp)) = None"
  shows "mp_step g = (Inl NoCurrentState, g) \<and>
         sg_step (graph (phases g ! cp)) = (Inr None, graph (phases g ! cp)) \<and>
         currentNode (graph (phases g ! cp)) = Inl NoCurrentState"
  using assms by (simp add: mp_step_def currentStateId_def sg_step_def currentNode_def)

theorem step_without_current_node_witness:
  "setInitialPhase bare_machine ''Recovery'' = (Inr True, bare_machine\<lparr>current_phase := Some 1\<rparr>) \<and>
   current_index (graph (phases (bare_machine\<lparr>current_phase := Some 1\<rparr>) ! 1)) = None \<and>
   mp_step (bare_machine\<lparr>current_phase := Some 1\<rparr>)
     = (Inl NoCurrentState, bare_machine\<lparr>current_phase := Some 1\<rparr>) \<and>
   sg_step (recovery_graph\<lparr>current_index := None\<rparr>)
     = (Inr None, recovery_graph\<lparr>current_index := None\<rparr>)"
proof -
  let ?g = "bare_machine\<lparr>current_phase := Some 1\<rparr>"
  have h: "current_phase ?g = Some 1" "1 < length (phases ?g)"
    "current_index (graph (phases ?g ! 1)) = None"
    by (simp_all add: bare_machine_def machine_def)
  have s: "setInitialPhase bare_machine ''Recovery'' = (Inr True, ?g)"
    by (simp add: setInitialPhase_def bare_machine_def machine_def)
  from step_without_current_node [OF h] h s show ?thesis
    by (simp add: bare_machine_def machine_def)
qed

subsection \<open>Errors raised by a condition\<close>













subsection \<open>Leaving a phase and coming back\<close>

lemma set_phase_graph_other:
  "a \<noteq> i \<Longrightarrow> phases (set_phase_graph g i gr) ! a = phases g ! a"
  by (simp add: set_phase_graph_def)

lemma set_phase_graph_length [simp]:
  "length (phases (set_phase_graph g i gr)) = length (phases g)"
  by (simp add: set_phase_graph_def)

lemma set_phase_graph_fields [simp]:
  "current_phase (set_phase_graph g i gr) = current_phase g"
  "phase_index (set_phase_graph g i gr) = phase_index g"
  "phase_edges (set_phase_graph g i gr) = phase_edges g"
  "phase_adj (set_phase_graph g i gr) = phase_adj g"
  by (simp_all add: set_phase_graph_def)

lemma enter_phase_keeps:
  assumes "enter_phase g pe = (res, g')" and "a < length (phases g)"
    and "current_index (graph (phases g ! a)) \<noteq> None"
  shows "phases g' ! a = phases g ! a \<and> length (phases g') = length (phases g)"
  using assms
  by (auto simp: enter_phase_def Let_def hasCurrentState_def set_phase_graph_def nth_list_update
      split: option.splits if_splits)

lemma phase_loop_keeps:
  assumes "phase_loop g cur xs = (res, g')" and "a < length (phases g)"
    and "current_index (graph (phases g ! a)) \<noteq> None"
  shows "phases g' ! a = phases g ! a \<and> length (phases g') = length (phases g)"
  using assms
proof (induction xs)
  case Nil
  then show ?case by simp
next
  case (Cons k xs)
  show ?case
  proof (cases "k < length (phase_edges g)")
    case False
    with Cons.prems show ?thesis by simp
  next
    case True
    show ?thesis
    proof (cases "pe_evaluate (phase_edges g ! k) cur")
      case (Inl e)
      with True Cons.prems show ?thesis by simp
    next
      case (Inr fires)
      show ?thesis
      proof (cases fires)
        case True
        with \<open>k < length (phase_edges g)\<close> Inr Cons.prems
        have "enter_phase g (phase_edges g ! k) = (res, g')" by simp
        from enter_phase_keeps [OF this Cons.prems(2,3)] show ?thesis .
      next
        case False
        with \<open>k < length (phase_edges g)\<close> Inr Cons.prems
        have "phase_loop g cur xs = (res, g')" by simp
        from Cons.IH [OF this Cons.prems(2,3)] show ?thesis .
      qed
    qed
  qed
qed

lemma step_result_state: "step_result pc sc g = (res, g') \<Longrightarrow> g' = g"
  by (auto simp: step_result_def split: sum.splits)

lemma mp_step_shape:
  assumes "current_phase g = Some cp" "cp < length (phases g)"
  shows "mp_next g = g \<or>
         (\<exists>gr. mp_next g = set_phase_graph g cp gr) \<or>
         (\<exists>gr cur xs res. phase_loop (set_phase_graph g cp gr) cur xs = (res, mp_next g))"
proof (cases "currentStateId (graph (phases g ! cp))")
  case (Inl e)
  with assms show ?thesis by (simp add: mp_next_def mp_step_def)
next
  case (Inr prev)
  obtain res gr where st: "sg_step (graph (phases g ! cp)) = (res, gr)"
    by (cases "sg_step (graph (phases g ! cp))")
  show ?thesis
  proof (cases res)
    case (Inl e)
    with assms Inr st have "mp_next g = set_phase_graph g cp gr"
      by (simp add: mp_next_def mp_step_def)
    then show ?thesis by blast
  next
    case ns: (Inr ns)
    show ?thesis
    proof (cases "currentNode gr")
      case (Inl e)
      with assms Inr st ns have "mp_next g = set_phase_graph g cp gr"
        by (simp add: mp_next_def mp_step_def Let_def)
      then show ?thesis by blast
    next
      case cn: (Inr curNode)
      let ?g1 = "set_phase_graph g cp gr"
      show ?thesis
      proof (cases "cp < length (phase_adj ?g1)")
        case False
        with assms Inr st ns cn have "mp_next g = ?g1"
          by (simp add: mp_next_def mp_step_def Let_def)
        then show ?thesis by blast
      next
        case True
        obtain pr g2 where pl: "phase_loop ?g1 curNode (phase_adj ?g1 ! cp) = (pr, g2)"
          by (cases "phase_loop ?g1 curNode (phase_adj ?g1 ! cp)")
        have "mp_next g = g2"
        proof (cases pr)
          case (Inl e)
          with assms Inr st ns cn True pl show ?thesis
            by (simp add: mp_next_def mp_step_def Let_def)
        next
          case pc: (Inr pc)
          obtain r g3 where sr: "step_result pc (ns \<noteq> None) g2 = (r, g3)"
            by (cases "step_result pc (ns \<noteq> None) g2")
          with step_result_state [OF sr] assms Inr st ns cn True pl pc show ?thesis
            by (simp add: mp_next_def mp_step_def Let_def)
        qed
        with pl show ?thesis by blast
      qed
    qed
  qed
qed

lemma mp_next_keeps_inactive:
  assumes "current_phase g \<noteq> Some a" and "a < length (phases g)"
    and "current_index (graph (phases g ! a)) \<noteq> None"
  shows "phases (mp_next g) ! a = phases g ! a \<and> length (phases (mp_next g)) = length (phases g)"
proof (cases "current_phase g")
  case None
  then show ?thesis by (simp add: mp_next_def mp_step_def)
next
  case (Some cp)
  with assms have ne: "a \<noteq> cp" by auto
  show ?thesis
  proof (cases "cp < length (phases g)")
    case False
    with Some show ?thesis by (simp add: mp_next_def mp_step_def)
  next
    case True
    from mp_step_shape [OF Some True]
    consider "mp_next g = g" | gr where "mp_next g = set_phase_graph g cp gr"
      | gr cur xs res where "phase_loop (set_phase_graph g cp gr) cur xs = (res, mp_next g)"
      by blast
    then show ?thesis
    proof cases
      case 1
      then show ?thesis by simp
    next
      case 2
      with ne show ?thesis by (simp add: set_phase_graph_other)
    next
      case 3
      have "a < length (phases (set_phase_graph g cp gr))" using assms by simp
      moreover have "current_index (graph (phases (set_phase_graph g cp gr) ! a)) \<noteq> None"
        using assms ne by (simp add: set_phase_graph_other)
      ultimately have "phases (mp_next g) ! a = phases (set_phase_graph g cp gr) ! a \<and>
          length (phases (mp_next g)) = length (phases (set_phase_graph g cp gr))"
        using phase_loop_keeps [OF 3] by blast
      with ne show ?thesis by (simp add: set_phase_graph_other)
    qed
  qed
qed

lemma inactive_phase_kept:
  assumes "a < length (phases g)" and "current_index (graph (phases g ! a)) \<noteq> None"
    and "\<forall>k<n. current_phase ((mp_next ^^ k) g) \<noteq> Some a"
  shows "phases ((mp_next ^^ n) g) ! a = phases g ! a \<and>
         length (phases ((mp_next ^^ n) g)) = length (phases g)"
  using assms(3)
proof (induction n)
  case 0
  then show ?case by simp
next
  case (Suc n)
  then have IH: "phases ((mp_next ^^ n) g) ! a = phases g ! a"
      "length (phases ((mp_next ^^ n) g)) = length (phases g)"
    by auto
  from Suc.prems have cur: "current_phase ((mp_next ^^ n) g) \<noteq> Some a" by auto
  have "phases (mp_next ((mp_next ^^ n) g)) ! a = phases ((mp_next ^^ n) g) ! a \<and>
        length (phases (mp_next ((mp_next ^^ n) g))) = length (phases ((mp_next ^^ n) g))"
    using IH assms(1,2) by (intro mp_next_keeps_inactive [OF cur]) auto
  with IH show ?case by simp
qed

lemma take_edge_current: "take_edge g e = (res, g') \<Longrightarrow> current_index g' \<noteq> None"
  by (auto simp: take_edge_def Let_def split: prod.splits if_splits)

lemma step_edges_current:
  "step_edges g cur xs = (res, g') \<Longrightarrow> current_index g \<noteq> None \<Longrightarrow> current_index g' \<noteq> None"
proof (induction xs)
  case Nil
  then show ?case by simp
next
  case (Cons k xs)
  then show ?case
    by (auto split: if_splits sum.splits dest: take_edge_current)
qed

lemma sg_step_current:
  "sg_step g = (res, g') \<Longrightarrow> current_index g \<noteq> None \<Longrightarrow> current_index g' \<noteq> None"
  by (auto simp: sg_step_def split: option.splits if_splits dest: step_edges_current)

lemma mp_step_normal:
  assumes "mp_step g = (Inr (Some r), g')"
  shows "\<exists>cp prev ns gr cur pc.
           current_phase g = Some cp \<and> cp < length (phases g) \<and>
           currentStateId (graph (phases g ! cp)) = Inr prev \<and>
           sg_step (graph (phases g ! cp)) = (Inr ns, gr) \<and>
           phase_loop (set_phase_graph g cp gr) cur (phase_adj g ! cp) = (Inr pc, g')"
proof -
  from assms obtain cp where cp: "current_phase g = Some cp"
    by (cases "current_phase g") (auto simp: mp_step_def)
  have len: "cp < length (phases g)"
    using assms cp by (cases "cp < length (phases g)") (auto simp: mp_step_def)
  obtain prev where prev: "currentStateId (graph (phases g ! cp)) = Inr prev"
    using assms cp len by (cases "currentStateId (graph (phases g ! cp))") (auto simp: mp_step_def)
  obtain res gr where st: "sg_step (graph (phases g ! cp)) = (res, gr)"
    by (cases "sg_step (graph (phases g ! cp))")
  obtain ns where ns: "res = Inr ns"
    using assms cp len prev st by (cases res) (auto simp: mp_step_def)
  obtain cur where cn: "currentNode gr = Inr cur"
    using assms cp len prev st ns by (cases "currentNode gr") (auto simp: mp_step_def Let_def)
  let ?g1 = "set_phase_graph g cp gr"
  have adj: "cp < length (phase_adj ?g1)"
    using assms cp len prev st ns cn
    by (cases "cp < length (phase_adj ?g1)") (auto simp: mp_step_def Let_def)
  obtain pr g2 where pl: "phase_loop ?g1 cur (phase_adj ?g1 ! cp) = (pr, g2)"
    by (cases "phase_loop ?g1 cur (phase_adj ?g1 ! cp)")
  obtain pc where pc: "pr = Inr pc"
    using assms cp len prev st ns cn adj pl by (cases pr) (auto simp: mp_step_def Let_def)
  have "step_result pc (ns \<noteq> None) g2 = (Inr (Some r), g')"
    using assms cp len prev st ns cn adj pl pc by (simp add: mp_step_def Let_def)
  from step_result_state [OF this] pl pc cp len prev st ns show ?thesis
    by auto
qed

lemma mp_step_current_kept:
  assumes "mp_step g = (Inr (Some r), g')" and "current_phase g = Some a"
  shows "a < length (phases g') \<and> current_index (graph (phases g' ! a)) \<noteq> None"
proof -
  from mp_step_normal [OF assms(1)] assms(2)
  obtain prev ns gr cur pc where len: "a < length (phases g)"
    and prev: "currentStateId (graph (phases g ! a)) = Inr prev"
    and st: "sg_step (graph (phases g ! a)) = (Inr ns, gr)"
    and pl: "phase_loop (set_phase_graph g a gr) cur (phase_adj g ! a) = (Inr pc, g')"
    by auto
  from prev have "current_index (graph (phases g ! a)) \<noteq> None"
    by (auto simp: currentStateId_def split: option.splits)
  with st have "current_index gr \<noteq> None"
    by (rule sg_step_current)
  with len have "current_index (graph (phases (set_phase_graph g a gr) ! a)) \<noteq> None"
    by (simp add: set_phase_graph_def)
  moreover have "a < length (phases (set_phase_graph g a gr))"
    using len by simp
  ultimately show ?thesis
    using phase_loop_keeps [OF pl] by auto
qed

text \<open>
  Claim C7. Let a step from phase \<open>a\<close> switch to another phase, and let the \<open>n\<close>-th step
  after it be the first that makes \<open>a\<close> current again. Then \<open>a\<close> has a current node when it
  is left, and its graph when it is entered again is the graph it was left with: the same
  current node (its initial state is not applied) and the same vars. \<open>setInitialPhase\<close>
  on a phase whose \<open>initial_state\<close> names one of its nodes makes the phase current and that
  node its current node, whatever current node the phase had.
\<close>

theorem phases_resume_unless_reset:
  "(current_phase g0 = Some a \<and> mp_step g0 = (Inr (Some r), g1) \<and>
    current_phase g1 \<noteq> Some a \<and>
    (\<forall>k<n. current_phase ((mp_next ^^ k) g1) \<noteq> Some a) \<and>
    current_phase ((mp_next ^^ n) g1) = Some a
    \<longrightarrow> current_index (graph (phases g1 ! a)) \<noteq> None \<and>
        graph (phases ((mp_next ^^ n) g1) ! a) = graph (phases g1 ! a)) \<and>
   (phase_index g phaseId = Some i \<and> i < length (phases g) \<and>
    initial_state (phases g ! i) \<noteq> [] \<and>
    node_index (graph (phases g ! i)) (initial_state (phases g ! i)) = Some k
    \<longrightarrow> setInitialPhase g phaseId =
          (Inr True,
           g\<lparr>current_phase := Some i,
             phases := (phases g)[i := (phases g ! i)
               \<lparr>graph := (graph (phases g ! i))\<lparr>current_index := Some k\<rparr>\<rparr>]\<rparr>))"
proof (intro conjI impI)
  assume h: "current_phase g0 = Some a \<and> mp_step g0 = (Inr (Some r), g1) \<and>
    current_phase g1 \<noteq> Some a \<and>
    (\<forall>k<n. current_phase ((mp_next ^^ k) g1) \<noteq> Some a) \<and>
    current_phase ((mp_next ^^ n) g1) = Some a"
  then have left: "a < length (phases g1)" "current_index (graph (phases g1 ! a)) \<noteq> None"
    using mp_step_current_kept [of g0 r g1 a] by auto
  from h have away: "\<forall>k<n. current_phase ((mp_next ^^ k) g1) \<noteq> Some a"
    by blast
  from inactive_phase_kept [OF left away] left
  show "current_index (graph (phases g1 ! a)) \<noteq> None"
    and "graph (phases ((mp_next ^^ n) g1) ! a) = graph (phases g1 ! a)"
    by simp_all
next
  assume "phase_index g phaseId = Some i \<and> i < length (phases g) \<and>
    initial_state (phases g ! i) \<noteq> [] \<and>
    node_index (graph (phases g ! i)) (initial_state (phases g ! i)) = Some k"
  then show "setInitialPhase g phaseId =
          (Inr True,
           g\<lparr>current_phase := Some i,
             phases := (phases g)[i := (phases g ! i)
               \<lparr>graph := (graph (phases g ! i))\<lparr>current_index := Some k\<rparr>\<rparr>]\<rparr>)"
    by (simp add: setInitialPhase_def setInitialState_def set_phase_graph_def Let_def)
qed

theorem phases_resume_unless_reset_witness:
  "current_phase machine = Some 0 \<and>
   mp_step machine =
     (Inr (Some \<lparr>phase_changed = True, state_changed = True,
                 res_phase_id = ''Recovery'', res_state_id = ''Wait''\<rparr>), mp_next machine) \<and>
   current_phase (mp_next machine) = Some 1 \<and>
   mp_step (mp_next machine) =
     (Inr (Some \<lparr>phase_changed = True, state_changed = False,
                 res_phase_id = ''Main'', res_state_id = ''Active''\<rparr>),
      mp_next (mp_next machine)) \<and>
   current_index (graph (phases (mp_next machine) ! 0)) = Some 1 \<and>
   graph (phases (mp_next (mp_next machine)) ! 0) = graph (phases (mp_next machine) ! 0) \<and>
   initial_state (phases (mp_next (mp_next machine)) ! 0) = ''Idle'' \<and>
   fst (setInitialPhase (mp_next (mp_next machine)) ''Main'') = Inr True \<and>
   mp_currentStateId (snd (setInitialPhase (mp_next (mp_next machine)) ''Main'')) = Inr ''Idle''"
proof -
  let ?r = "\<lparr>phase_changed = True, state_changed = True,
             res_phase_id = ''Recovery'', res_state_id = ''Wait''\<rparr>"
  let ?g1 = "mp_next machine"
  let ?g2 = "mp_next (mp_next machine)"
  have s1: "mp_step machine = (Inr (Some ?r), ?g1)"
    by (simp add: sample_defs step_defs eval_defs)
  have c0: "current_phase machine = Some 0"
    by (simp add: sample_defs)
  have c1: "current_phase ?g1 = Some 1"
    by (simp add: sample_defs step_defs eval_defs)
  have s2: "mp_step ?g1 =
     (Inr (Some \<lparr>phase_changed = True, state_changed = False,
                 res_phase_id = ''Main'', res_state_id = ''Active''\<rparr>), ?g2)"
    by (simp add: sample_defs step_defs eval_defs)
  have c2: "current_phase ?g2 = Some 0"
    by (simp add: sample_defs step_defs eval_defs)
  have i1: "current_index (graph (phases ?g1 ! 0)) = Some 1"
    by (simp add: sample_defs step_defs eval_defs)
  have away: "\<forall>k<Suc 0. current_phase ((mp_next ^^ k) ?g1) \<noteq> Some 0"
    using c1 by simp
  have init: "phase_index ?g2 ''Main'' = Some 0 \<and> 0 < length (phases ?g2) \<and>
      initial_state (phases ?g2 ! 0) \<noteq> [] \<and>
      node_index (graph (phases ?g2 ! 0)) (initial_state (phases ?g2 ! 0)) = Some 0"
    by (simp add: sample_defs step_defs eval_defs)
  have ini: "initial_state (phases ?g2 ! 0) = ''Idle''"
    by (simp add: sample_defs step_defs eval_defs)
  have nd: "node_id (nodes (graph (phases ?g2 ! 0)) ! 0) = ''Idle''"
    "0 < length (nodes (graph (phases ?g2 ! 0)))"
    by (simp_all add: sample_defs step_defs eval_defs)
  from phases_resume_unless_reset [of machine 0 ?r ?g1 "Suc 0" ?g2 "''Main''" 0 0]
    c0 s1 c1 away c2 init
  have keep: "graph (phases ?g2 ! 0) = graph (phases ?g1 ! 0)"
    and reset: "setInitialPhase ?g2 ''Main'' =
          (Inr True,
           ?g2\<lparr>current_phase := Some 0,
             phases := (phases ?g2)[0 := (phases ?g2 ! 0)
               \<lparr>graph := (graph (phases ?g2 ! 0))\<lparr>current_index := Some 0\<rparr>\<rparr>]\<rparr>)"
    by simp_all
  from init nd have "mp_currentStateId (snd (setInitialPhase ?g2 ''Main'')) = Inr ''Idle''"
    unfolding reset by (simp add: mp_currentStateId_def currentStateId_def)
  with c0 s1 c1 s2 i1 keep ini reset show ?thesis
    by simp
qed

section \<open>Loading\<close>

lemma sample_conditions:
  "compileExpression ''count == 1''
     = Inr (CMP ''=='' (LEAF (IDENT ''count'')) (LEAF (NUMBER (DFin 1))))"
  "compileExpression ''count > 5''
     = Inr (CMP ''>'' (LEAF (IDENT ''count'')) (LEAF (NUMBER (DFin 5))))"
  "compileExpression ''enabled'' = Inr (LEAF (IDENT ''enabled''))"
  "compileExpression ''true'' = Inr (LEAF (BOOLEAN True))"
  "compileExpression ''false'' = Inr (LEAF (BOOLEAN False))"
  by code_simp+

lemmas json_defs = j_contains_def j_at_def j_get_string_def j_string_at_def j_elements_def
  j_items_def parseValue_def bag_of_def node_from_json_def edge_from_json_def
  phase_edge_from_json_def load_phase_def load_phase_edge_def first_phase_current_def
  addNode_def addEdge_def sg_empty_def mp_empty_def mp_clear_def sg_clear_def

text \<open>The sample machine is what the loader makes of the sample document.\<close>

lemma load_sample:
  "mp_loadFromJson sample_files ''sample_graph.json'' mp_empty = (Inr True, machine)"
  by (simp add: mp_loadFromJson_def sample_files_def sample_document_def json_defs
      sample_conditions sample_defs setInitialState_def hasCurrentState_def set_phase_graph_def)

lemma mp_load_missing_file:
  "fs filePath = None \<Longrightarrow> mp_loadFromJson fs filePath g = (Inr False, mp_clear g)"
  by (simp add: mp_loadFromJson_def)

lemma sg_load_missing_file:
  "fs filePath = None \<Longrightarrow> sg_loadFromJson fs filePath g = (Inr False, g)"
  by (simp add: sg_loadFromJson_def)

text \<open>
  Claim C3. \<^verbatim>\<open>MultiPhaseStateGraph::loadFromJson\<close> on a file that cannot be opened returns
  false without raising, but it has called \<^verbatim>\<open>clear()\<close> before it opened the file: the
  sample machine, loaded from its document, is empty after a second load from a file that is
  not there. \<^verbatim>\<open>StateGraph::loadFromJson\<close> opens and parses the file first and leaves its
  graph as it was.
\<close>

theorem load_missing_file_clears:
  "mp_loadFromJson sample_files ''sample_graph.json'' mp_empty = (Inr True, machine) \<and>
   sample_files ''nonexistent_file.json'' = None \<and>
   mp_loadFromJson sample_files ''nonexistent_file.json'' machine = (Inr False, mp_empty) \<and>
   machine \<noteq> mp_empty \<and>
   mp_currentPhaseId machine = Inr ''Main'' \<and>
   mp_currentPhaseId mp_empty = Inl NoCurrentPhase \<and>
   sg_loadFromJson sample_files ''nonexistent_file.json'' main_graph = (Inr False, main_graph)"
proof -
  have none: "sample_files ''nonexistent_file.json'' = None"
    by (simp add: sample_files_def)
  have a: "mp_currentPhaseId machine = Inr ''Main''"
    by (simp add: mp_currentPhaseId_def machine_def)
  have b: "mp_currentPhaseId mp_empty = Inl NoCurrentPhase"
    by (simp add: mp_currentPhaseId_def mp_empty_def)
  from a b have "machine \<noteq> mp_empty" by auto
  moreover have "mp_clear machine = mp_empty"
    by (simp add: mp_clear_def mp_empty_def machine_def)
  ultimately show ?thesis
    using load_sample none a b
      mp_load_missing_file [of sample_files "''nonexistent_file.json''" machine]
      sg_load_missing_file [of sample_files "''nonexistent_file.json''" main_graph]
    by simp
qed

end
